theory Spec2Isabelle
  imports Complex_Main
begin

section \<open>Purification of a weighted score tensor (shared/libebm/Purify.cpp)\<close>

text \<open>
  The file has two functions: \<open>PurifyInternal\<close>, the numerical core, and \<open>Purify\<close>, the
  exported entry point that validates its arguments and calls the core.

  Conventions of the embedding.
  \<^item> A \<open>double\<close> is idealised as a \<open>real\<close>: every sum, product and quotient is exact.
    The initial value \<open>+infinity\<close> of \<open>impurityPrev\<close> is \<open>None\<close> in a \<open>real option\<close>.
  \<^item> A \<open>size_t\<close> is a \<open>nat\<close>. The buffers of a call exist in memory, so the tensor bin
    count, the surface bin count and every index formed from them are below \<open>2 ^ 64\<close> and no
    \<open>size_t\<close> operation of the core wraps.
  \<^item> An array is a list; \<open>aDimensionLengths\<close> of the core is the list of the values
    \<open>static_cast<size_t>(aDimensionLengths[i])\<close>. Reading or writing an array out of range is
    undefined in C++; the theorems carry the lengths of the buffers as hypotheses.
  \<^item> A pointer that may be null is an \<open>option\<close>: \<open>pInterceptOut = None\<close> is
    \<open>nullptr\<close>, \<open>Some v\<close> is a slot holding \<open>v\<close>.
  \<^item> \<open>EBM_ASSERT\<close> is modelled as in a debug build: a violated assertion ends the run
    with \<open>Inl Assertion_Violated\<close>.
  \<^item> The \<open>do ... while(bRetry)\<close> loop may run forever in exact arithmetic; it is a
    \<^theory_text>\<open>partial_function\<close> into \<open>option\<close>, where \<open>None\<close> is a run that never returns.
\<close>

datatype ErrorEbm = Error_None | Error_OutOfMemory | Error_IllegalParamVal

datatype fault = Assertion_Violated

record buffers =
  aScores :: "real list"
  aImpurities :: "real list"
  pInterceptOut :: "real option"

subsection \<open>Lines 37--58: the totals over all tensor cells\<close>

definition totals :: "nat \<Rightarrow> real list \<Rightarrow> real list \<Rightarrow> real \<times> real \<times> real" where
  "totals cTensorBins aWeights scores =
     foldl (\<lambda>(impurityMax, impurityTotalAll, weightTotalAll) i.
              (impurityMax + \<bar>scores ! i * aWeights ! i\<bar>,
               impurityTotalAll + scores ! i * aWeights ! i,
               weightTotalAll + aWeights ! i))
           (0, 0, 0) [0..<cTensorBins]"

subsection \<open>Lines 60--70: the intercept\<close>

definition add_at :: "real \<Rightarrow> real list \<Rightarrow> nat \<Rightarrow> real list" where
  "add_at v xs i = xs[i := xs ! i + v]"

definition extract_intercept :: "nat \<Rightarrow> real \<Rightarrow> real \<Rightarrow> buffers \<Rightarrow> buffers" where
  "extract_intercept cTensorBins impurityTotalAll weightTotalAll b =
     (if pInterceptOut b \<noteq> None then
        let intercept = impurityTotalAll / weightTotalAll;
            interceptNeg = - intercept
        in b\<lparr>pInterceptOut := Some intercept,
             aScores := foldl (add_at interceptNeg) (aScores b) [0..<cTensorBins]\<rparr>
      else b)"

subsection \<open>Lines 72--82: the number of surface bins, and the memset\<close>

fun count_surface_bins :: "nat \<Rightarrow> nat list \<Rightarrow> nat \<Rightarrow> fault + nat" where
  "count_surface_bins cTensorBins [] cSurfaceBins = Inr cSurfaceBins"
| "count_surface_bins cTensorBins (cBins # rest) cSurfaceBins =
     (if cBins = 0 \<or> cTensorBins mod cBins \<noteq> 0 then Inl Assertion_Violated
      else count_surface_bins cTensorBins rest (cSurfaceBins + cTensorBins div cBins))"

definition memset_zero :: "real list \<Rightarrow> nat \<Rightarrow> real list" where
  "memset_zero xs n = replicate n 0 @ drop n xs"

subsection \<open>Lines 94--123: decoding a surface bin\<close>

text \<open>
  The \<open>while(true)\<close> loop of lines 98--110 walks the dimensions; the list argument holds the
  extents from \<open>iSweepDimension\<close> on. Running off the end is the failure of
  \<open>EBM_ASSERT(iSweepDimension < cDimensions)\<close>. The result is
  \<open>(iSweepDimension, cSweepBins, cTensorIncrement, iDimensionSurfaceBin)\<close>.
\<close>

fun find_sweep :: "nat \<Rightarrow> nat list \<Rightarrow> nat \<Rightarrow> nat \<Rightarrow> nat \<Rightarrow> fault + (nat \<times> nat \<times> nat \<times> nat)" where
  "find_sweep cTensorBins [] iSweepDimension cTensorIncrement iDimensionSurfaceBin =
     Inl Assertion_Violated"
| "find_sweep cTensorBins (cSweepBins # rest) iSweepDimension cTensorIncrement iDimensionSurfaceBin =
     (if cSweepBins = 0 \<or> cTensorBins mod cSweepBins \<noteq> 0 then Inl Assertion_Violated
      else if iDimensionSurfaceBin < cTensorBins div cSweepBins
      then Inr (iSweepDimension, cSweepBins, cTensorIncrement, iDimensionSurfaceBin)
      else find_sweep cTensorBins rest (Suc iSweepDimension) (cTensorIncrement * cSweepBins)
             (iDimensionSurfaceBin - cTensorBins div cSweepBins))"

text \<open>
  The \<open>for\<close> loop of lines 114--122; the list holds the extents from \<open>iDimension\<close> on.
  The result is \<open>(iTensor, iDimensionSurfaceBin)\<close> at the end of the loop.
\<close>

fun tensor_offset :: "nat list \<Rightarrow> nat \<Rightarrow> nat \<Rightarrow> nat \<Rightarrow> nat \<Rightarrow> nat \<Rightarrow> nat \<times> nat" where
  "tensor_offset [] iDimension iSweepDimension iDimensionSurfaceBin iTensor multiple =
     (iTensor, iDimensionSurfaceBin)"
| "tensor_offset (cBins # rest) iDimension iSweepDimension iDimensionSurfaceBin iTensor multiple =
     (if iDimension \<noteq> iSweepDimension
      then tensor_offset rest (Suc iDimension) iSweepDimension (iDimensionSurfaceBin div cBins)
             (iTensor + (iDimensionSurfaceBin mod cBins) * multiple) (multiple * cBins)
      else tensor_offset rest (Suc iDimension) iSweepDimension iDimensionSurfaceBin
             iTensor (multiple * cBins))"

text \<open>
  Lines 94--125 together: \<open>Inr (iSweepDimension, iTensor, cTensorIncrement, cSweepBins)\<close>, or
  the failure of an assertion; the last test is \<open>EBM_ASSERT(0 == iDimensionSurfaceBin)\<close>.
\<close>

definition decode_surface_bin ::
  "nat \<Rightarrow> nat \<Rightarrow> nat list \<Rightarrow> nat \<Rightarrow> fault + (nat \<times> nat \<times> nat \<times> nat)" where
  "decode_surface_bin cTensorBins cDimensions aDimensionLengths iAllSurfaceBin =
     (case find_sweep cTensorBins (take cDimensions aDimensionLengths) 0 1 iAllSurfaceBin of
        Inl f \<Rightarrow> Inl f
      | Inr (iSweepDimension, cSweepBins, cTensorIncrement, iDimensionSurfaceBin) \<Rightarrow>
          (case tensor_offset (take cDimensions aDimensionLengths) 0 iSweepDimension
                  iDimensionSurfaceBin 0 1 of
             (iTensor, residual) \<Rightarrow>
               if residual \<noteq> 0 then Inl Assertion_Violated
               else Inr (iSweepDimension, iTensor, cTensorIncrement, cSweepBins)))"

text \<open>
  The cells visited by the two loops
  \<open>for(iTensorCur = iTensor; iTensorCur != iTensorEnd; iTensorCur += cTensorIncrement)\<close>
  with \<open>iTensorEnd = iTensor + cTensorIncrement * cSweepBins\<close>. The increment is a product
  of extents that passed the assertion of line 100, so it is not zero.
\<close>

definition slice_indexes :: "nat \<Rightarrow> nat \<Rightarrow> nat \<Rightarrow> nat list" where
  "slice_indexes iTensor cTensorIncrement cSweepBins =
     map (\<lambda>n. iTensor + n * cTensorIncrement) [0..<cSweepBins]"

definition slice_cells :: "nat \<Rightarrow> nat \<Rightarrow> nat list \<Rightarrow> nat \<Rightarrow> nat list" where
  "slice_cells cTensorBins cDimensions aDimensionLengths iAllSurfaceBin =
     (case decode_surface_bin cTensorBins cDimensions aDimensionLengths iAllSurfaceBin of
        Inl f \<Rightarrow> []
      | Inr (iSweepDimension, iTensor, cTensorIncrement, cSweepBins) \<Rightarrow>
          slice_indexes iTensor cTensorIncrement cSweepBins)"

definition sweep_dimension :: "nat \<Rightarrow> nat \<Rightarrow> nat list \<Rightarrow> nat \<Rightarrow> nat" where
  "sweep_dimension cTensorBins cDimensions aDimensionLengths iAllSurfaceBin =
     (case decode_surface_bin cTensorBins cDimensions aDimensionLengths iAllSurfaceBin of
        Inl f \<Rightarrow> cDimensions
      | Inr (iSweepDimension, iTensor, cTensorIncrement, cSweepBins) \<Rightarrow> iSweepDimension)"

subsection \<open>Lines 126--147: one surface bin\<close>

text \<open>
  Lines 126--136: the weighted mean of a slice, \<open>0\<close> when the weights of the slice sum
  to \<open>0\<close>.
\<close>

definition slice_impurity :: "real list \<Rightarrow> real list \<Rightarrow> nat list \<Rightarrow> real" where
  "slice_impurity aWeights scores cells =
     (case foldl (\<lambda>(impurity, weightTotal) iTensorCur.
                    (impurity + scores ! iTensorCur * aWeights ! iTensorCur,
                     weightTotal + aWeights ! iTensorCur))
                 (0, 0) cells of
        (impurity, weightTotal) \<Rightarrow> if 0 = weightTotal then 0 else impurity / weightTotal)"

text \<open>The locals of a pass: \<open>(impurityCur, bRetry)\<close>, and the buffers.\<close>

type_synonym pass_state = "real \<times> bool \<times> buffers"

definition purify_surface_bin ::
  "nat \<Rightarrow> nat \<Rightarrow> nat list \<Rightarrow> real list \<Rightarrow> real \<Rightarrow> nat \<Rightarrow> pass_state \<Rightarrow> fault + pass_state" where
  "purify_surface_bin cTensorBins cDimensions aDimensionLengths aWeights impurityMax
       iAllSurfaceBin st =
     (case st of (impurityCur, bRetry, b) \<Rightarrow>
      (case decode_surface_bin cTensorBins cDimensions aDimensionLengths iAllSurfaceBin of
         Inl f \<Rightarrow> Inl f
       | Inr (iSweepDimension, iTensor, cTensorIncrement, cSweepBins) \<Rightarrow>
           let cells = slice_indexes iTensor cTensorIncrement cSweepBins;
               impurity = slice_impurity aWeights (aScores b) cells;
               absImpurity = \<bar>impurity\<bar>
           in Inr (impurityCur + absImpurity,
                   bRetry \<or> impurityMax < absImpurity,
                   b\<lparr>aImpurities := add_at impurity (aImpurities b) iAllSurfaceBin,
                     aScores := foldl (add_at (- impurity)) (aScores b) cells\<rparr>)))"

subsection \<open>Lines 88--148: one pass over all surface bins\<close>

fun purify_bins ::
  "nat \<Rightarrow> nat \<Rightarrow> nat list \<Rightarrow> real list \<Rightarrow> real \<Rightarrow> nat list \<Rightarrow> pass_state \<Rightarrow> fault + pass_state" where
  "purify_bins cTensorBins cDimensions aDimensionLengths aWeights impurityMax [] st = Inr st"
| "purify_bins cTensorBins cDimensions aDimensionLengths aWeights impurityMax
       (iAllSurfaceBin # rest) st =
     (case purify_surface_bin cTensorBins cDimensions aDimensionLengths aWeights impurityMax
             iAllSurfaceBin st of
        Inl f \<Rightarrow> Inl f
      | Inr st' \<Rightarrow>
          purify_bins cTensorBins cDimensions aDimensionLengths aWeights impurityMax rest st')"

definition purify_pass ::
  "nat \<Rightarrow> nat \<Rightarrow> nat list \<Rightarrow> real list \<Rightarrow> real \<Rightarrow> nat \<Rightarrow> buffers \<Rightarrow> fault + pass_state" where
  "purify_pass cTensorBins cDimensions aDimensionLengths aWeights impurityMax cSurfaceBins b =
     purify_bins cTensorBins cDimensions aDimensionLengths aWeights impurityMax
       [0..<cSurfaceBins] (0, False, b)"

subsection \<open>Lines 84--155: the passes\<close>

text \<open>
  What is known when the loop is left: the buffers, the number of passes made, and which of
  the two exits was taken, the \<open>break\<close> of line 152 (\<open>exit_by_guard\<close>) or the condition of
  line 155. The last two are observations of the run; the source returns neither.
\<close>

record loop_exit =
  exit_buffers :: buffers
  exit_passes :: nat
  exit_by_guard :: bool

partial_function (option) purify_loop ::
  "nat \<Rightarrow> nat \<Rightarrow> nat list \<Rightarrow> real list \<Rightarrow> real \<Rightarrow> nat \<Rightarrow> real option \<Rightarrow> nat \<Rightarrow> buffers
     \<Rightarrow> (fault + loop_exit) option" where
  "purify_loop cTensorBins cDimensions aDimensionLengths aWeights impurityMax cSurfaceBins
       impurityPrev cPasses b =
     (case purify_pass cTensorBins cDimensions aDimensionLengths aWeights impurityMax
             cSurfaceBins b of
        Inl f \<Rightarrow> Some (Inl f)
      | Inr (impurityCur, bRetry, b') \<Rightarrow>
          if (case impurityPrev of None \<Rightarrow> False | Some prev \<Rightarrow> prev \<le> impurityCur)
          then Some (Inr \<lparr>exit_buffers = b', exit_passes = Suc cPasses, exit_by_guard = True\<rparr>)
          else if bRetry
          then purify_loop cTensorBins cDimensions aDimensionLengths aWeights impurityMax
                 cSurfaceBins (Some impurityCur) (Suc cPasses) b'
          else Some (Inr \<lparr>exit_buffers = b', exit_passes = Suc cPasses, exit_by_guard = False\<rparr>))"

subsection \<open>PurifyInternal\<close>

text \<open>
  Lines 30--82, everything before the first pass: \<open>Inr None\<close> is the return of line 55
  (the weights sum to zero), \<open>Inr (Some (impurityMax, cSurfaceBins, b))\<close> is the state in
  which the first pass starts.
\<close>

definition purify_setup ::
  "nat \<Rightarrow> real \<Rightarrow> nat \<Rightarrow> nat list \<Rightarrow> real list \<Rightarrow> buffers \<Rightarrow> fault + (real \<times> nat \<times> buffers) option" where
  "purify_setup cTensorBins tolerance cDimensions aDimensionLengths aWeights b =
     (if cTensorBins < 1 \<or> cDimensions < 1 then Inl Assertion_Violated
      else case totals cTensorBins aWeights (aScores b) of
        (impurityMax, impurityTotalAll, weightTotalAll) \<Rightarrow>
          if 0 = weightTotalAll then Inr None
          else
            (case count_surface_bins cTensorBins (take cDimensions aDimensionLengths) 0 of
               Inl f \<Rightarrow> Inl f
             | Inr cSurfaceBins \<Rightarrow>
                 let b1 = extract_intercept cTensorBins impurityTotalAll weightTotalAll b
                 in Inr (Some (impurityMax * tolerance / weightTotalAll, cSurfaceBins,
                          b1\<lparr>aImpurities := memset_zero (aImpurities b1) cSurfaceBins\<rparr>))))"

definition PurifyInternal_run ::
  "nat \<Rightarrow> real \<Rightarrow> nat \<Rightarrow> nat list \<Rightarrow> real list \<Rightarrow> buffers \<Rightarrow> (fault + loop_exit) option" where
  "PurifyInternal_run cTensorBins tolerance cDimensions aDimensionLengths aWeights b =
     (case purify_setup cTensorBins tolerance cDimensions aDimensionLengths aWeights b of
        Inl f \<Rightarrow> Some (Inl f)
      | Inr None \<Rightarrow> Some (Inr \<lparr>exit_buffers = b, exit_passes = 0, exit_by_guard = False\<rparr>)
      | Inr (Some (impurityMax, cSurfaceBins, b1)) \<Rightarrow>
          purify_loop cTensorBins cDimensions aDimensionLengths aWeights impurityMax
            cSurfaceBins None 0 b1)"

text \<open>The function as the source declares it: the error code and the buffers it leaves.\<close>

definition PurifyInternal ::
  "nat \<Rightarrow> real \<Rightarrow> nat \<Rightarrow> nat list \<Rightarrow> real list \<Rightarrow> buffers \<Rightarrow> (fault + ErrorEbm \<times> buffers) option" where
  "PurifyInternal cTensorBins tolerance cDimensions aDimensionLengths aWeights b =
     (case PurifyInternal_run cTensorBins tolerance cDimensions aDimensionLengths aWeights b of
        None \<Rightarrow> None
      | Some (Inl f) \<Rightarrow> Some (Inl f)
      | Some (Inr e) \<Rightarrow> Some (Inr (Error_None, exit_buffers e)))"

subsection \<open>Purify, the exported entry point (lines 161--273)\<close>

text \<open>
  \<open>IntEbm\<close> is a signed integer type, an \<open>int\<close> here. The caller's pointers \<open>weights\<close>,
  \<open>scores\<close>, \<open>impurities\<close>, \<open>dimensionLengths\<close> and \<open>interceptOut\<close> may be null. The
  memory the call may write is a record; the function returns the error code and that memory.
  The constant \<open>k_cDimensionsMax\<close> is declared outside this file and is a parameter.
\<close>

record memory =
  scores_buf :: "real list option"
  impurities_buf :: "real list option"
  interceptOut_slot :: "real option"

text \<open>The largest \<open>size_t\<close>, for a target with 64-bit addresses.\<close>

definition SIZE_MAX :: nat where
  "SIZE_MAX = 2 ^ 64 - 1"

text \<open>
  Modelled from the spec: \<open>IsConvertError<size_t>\<close> and \<open>IsMultiplyError\<close> are helpers of
  the repository that this file only calls. The spec has the entry point reject a dimension
  length or a total bin count that "would overflow the addressable size type".
\<close>

definition IsConvertError_size_t :: "int \<Rightarrow> bool" where
  "IsConvertError_size_t v = (v < 0 \<or> int SIZE_MAX < v)"

definition IsMultiplyError :: "nat \<Rightarrow> nat \<Rightarrow> bool" where
  "IsMultiplyError a b = (SIZE_MAX < a * b)"

text \<open>Lines 211--223; the list holds \<open>dimensionLengths\<close> from \<open>iDimension\<close> on.\<close>

fun check_lengths :: "int list \<Rightarrow> bool \<Rightarrow> ErrorEbm + bool" where
  "check_lengths [] bZero = Inr bZero"
| "check_lengths (dimensionsLength # rest) bZero =
     (if dimensionsLength \<le> 0
      then (if dimensionsLength < 0 then Inl Error_IllegalParamVal
            else check_lengths rest True)
      else check_lengths rest bZero)"

text \<open>Lines 229--249.\<close>

fun count_tensor_bins :: "int list \<Rightarrow> nat \<Rightarrow> fault + ErrorEbm + nat" where
  "count_tensor_bins [] cTensorBins = Inr (Inr cTensorBins)"
| "count_tensor_bins (dimensionsLength # rest) cTensorBins =
     (if \<not> 1 \<le> dimensionsLength then Inl Assertion_Violated
      else if IsConvertError_size_t dimensionsLength then Inr (Inl Error_OutOfMemory)
      else if IsMultiplyError cTensorBins (nat dimensionsLength) then Inr (Inl Error_OutOfMemory)
      else count_tensor_bins rest (cTensorBins * nat dimensionsLength))"

text \<open>Lines 252--272: the null checks on the three buffers, and the call of the core.\<close>

definition purify_buffers ::
  "real \<Rightarrow> nat \<Rightarrow> nat list \<Rightarrow> nat \<Rightarrow> real list option \<Rightarrow> memory
     \<Rightarrow> (fault + ErrorEbm \<times> memory) option" where
  "purify_buffers tolerance cDimensions aDimensionLengths cTensorBins weights m =
     (case weights of
        None \<Rightarrow> Some (Inr (Error_IllegalParamVal, m))
      | Some aWeights \<Rightarrow>
          (case scores_buf m of
             None \<Rightarrow> Some (Inr (Error_IllegalParamVal, m))
           | Some s \<Rightarrow>
               (case impurities_buf m of
                  None \<Rightarrow> Some (Inr (Error_IllegalParamVal, m))
                | Some imp \<Rightarrow>
                    (case PurifyInternal cTensorBins tolerance cDimensions aDimensionLengths
                            aWeights
                            \<lparr>aScores = s, aImpurities = imp,
                             pInterceptOut = interceptOut_slot m\<rparr> of
                       None \<Rightarrow> None
                     | Some (Inl f) \<Rightarrow> Some (Inl f)
                     | Some (Inr (error, b)) \<Rightarrow>
                         Some (Inr (error,
                           \<lparr>scores_buf = Some (aScores b),
                            impurities_buf = Some (aImpurities b),
                            interceptOut_slot = pInterceptOut b\<rparr>))))))"

definition Purify ::
  "nat \<Rightarrow> real \<Rightarrow> int \<Rightarrow> int list option \<Rightarrow> real list option \<Rightarrow> memory
     \<Rightarrow> (fault + ErrorEbm \<times> memory) option" where
  "Purify k_cDimensionsMax tolerance countDimensions dimensionLengths weights m0 =
     (let m = m0\<lparr>interceptOut_slot :=
                  (if interceptOut_slot m0 \<noteq> None then Some 0 else None)\<rparr>
      in
      if countDimensions \<le> 0 then
        (if 0 = countDimensions then Some (Inr (Error_None, m))
         else Some (Inr (Error_IllegalParamVal, m)))
      else if int k_cDimensionsMax < countDimensions then Some (Inr (Error_OutOfMemory, m))
      else
        (case dimensionLengths of
           None \<Rightarrow> Some (Inr (Error_IllegalParamVal, m))
         | Some lens \<Rightarrow>
             (case check_lengths (take (nat countDimensions) lens) False of
                Inl e \<Rightarrow> Some (Inr (e, m))
              | Inr bZero \<Rightarrow>
                  if bZero then Some (Inr (Error_None, m))
                  else
                    (case count_tensor_bins (take (nat countDimensions) lens) 1 of
                       Inl f \<Rightarrow> Some (Inl f)
                     | Inr (Inl e) \<Rightarrow> Some (Inr (e, m))
                     | Inr (Inr cTensorBins) \<Rightarrow>
                         purify_buffers tolerance (nat countDimensions) (map nat lens)
                           cTensorBins weights m))))"

section \<open>Valid inputs, and the quantities the properties are stated with\<close>

text \<open>
  The contract of \<open>PurifyInternal\<close>: at least one dimension, \<open>cDimensions\<close> positive
  extents, and their product is the tensor bin count.
\<close>

definition valid_shape :: "nat \<Rightarrow> nat \<Rightarrow> nat list \<Rightarrow> bool" where
  "valid_shape cTensorBins cDimensions aDimensionLengths \<longleftrightarrow>
     1 \<le> cDimensions \<and> length aDimensionLengths = cDimensions
     \<and> (\<forall>c\<in>set aDimensionLengths. 1 \<le> c)
     \<and> prod_list aDimensionLengths = cTensorBins"

text \<open>The number of surface bins: the sum over the dimensions of \<open>cTensorBins / extent\<close>.\<close>

definition surface_bins :: "nat \<Rightarrow> nat list \<Rightarrow> nat" where
  "surface_bins cTensorBins aDimensionLengths =
     (\<Sum>c\<leftarrow>aDimensionLengths. cTensorBins div c)"

text \<open>
  What the impurities buffer records for a cell: the sum of \<open>aImpurities[k]\<close> over the
  surface bins \<open>k\<close> whose slice, as the code decodes it, contains the cell.
\<close>

definition removed_from_cell :: "nat \<Rightarrow> nat \<Rightarrow> nat list \<Rightarrow> real list \<Rightarrow> nat \<Rightarrow> real" where
  "removed_from_cell cTensorBins cDimensions aDimensionLengths impurities i =
     (\<Sum>k\<leftarrow>[0..<surface_bins cTensorBins aDimensionLengths].
        if i \<in> set (slice_cells cTensorBins cDimensions aDimensionLengths k)
        then impurities ! k else 0)"

text \<open>
  The invariant of the passes behind the conservation property: the scores buffer has
  \<open>cTensorBins\<close> cells, the impurities buffer has a slot for every surface bin, and a cell's
  score plus what the impurities record for it is the fixed value \<open>base i\<close>.
\<close>

definition conserved :: "nat \<Rightarrow> nat \<Rightarrow> nat list \<Rightarrow> (nat \<Rightarrow> real) \<Rightarrow> buffers \<Rightarrow> bool" where
  "conserved T D lens base b \<longleftrightarrow>
     length (aScores b) = T \<and> surface_bins T lens \<le> length (aImpurities b)
     \<and> (\<forall>i<T. aScores b ! i + removed_from_cell T D lens (aImpurities b) i = base i)"

text \<open>
  The direct computation the one-dimensional case is compared with: the weighted mean of
  the scores.
\<close>

definition weighted_mean :: "real list \<Rightarrow> real list \<Rightarrow> real" where
  "weighted_mean aWeights scores =
     (\<Sum>i\<leftarrow>[0..<length scores]. scores ! i * aWeights ! i) / sum_list aWeights"

text \<open>
  The cross-section index of a cell for a dimension of stride \<open>P\<close> and extent \<open>c\<close>: the
  cell's index with the digit of that dimension taken out.
\<close>

definition cross_section :: "nat \<Rightarrow> nat \<Rightarrow> nat \<Rightarrow> nat" where
  "cross_section P c i = i mod P + P * (i div (P * c))"


text \<open>
  The weighted sum of the squared scores. A surface bin of weight \<open>W\<close> that removes the mean
  \<open>m\<close> lowers it by \<open>m\<^sup>2 * W\<close>; it measures the progress of the passes in exact arithmetic.
\<close>

definition energy :: "real list \<Rightarrow> real list \<Rightarrow> real" where
  "energy aWeights scores = (\<Sum>i\<leftarrow>[0..<length scores]. aWeights ! i * (scores ! i)\<^sup>2)"

section \<open>The entry point: early returns and error codes\<close>

lemma check_lengths_nonneg:
  "\<forall>l\<in>set ls. 0 \<le> l \<Longrightarrow> check_lengths ls bZero = Inr (bZero \<or> 0 \<in> set ls)"
  by (induction ls arbitrary: bZero) auto

lemma check_lengths_negative:
  "\<exists>l\<in>set ls. l < 0 \<Longrightarrow> check_lengths ls bZero = Inl Error_IllegalParamVal"
  by (induction ls arbitrary: bZero) auto

lemma check_lengths_positive:
  "\<forall>l\<in>set ls. 1 \<le> l \<Longrightarrow> check_lengths ls bZero = Inr bZero"
  by (induction ls arbitrary: bZero) auto

lemma count_tensor_bins_error:
  "count_tensor_bins ls acc = Inr (Inl e) \<Longrightarrow> e = Error_OutOfMemory"
  by (induction ls arbitrary: acc) (auto split: if_splits)

lemma count_tensor_bins_no_fault:
  "\<forall>l\<in>set ls. 1 \<le> l \<Longrightarrow> count_tensor_bins ls acc \<noteq> Inl f"
  by (induction ls arbitrary: acc) auto


text \<open>
  Claim C9, as the code has it. A call of \<open>Purify\<close> whose dimension count exceeds
  \<open>k_cDimensionsMax\<close> is rejected with \<open>Error_OutOfMemory\<close>, the resource-exhaustion code
  (line 202), whatever the other arguments are. The invalid-argument code
  \<open>Error_IllegalParamVal\<close> is returned for a negative dimension count, a null
  \<open>dimensionLengths\<close>, a negative dimension length, and a null \<open>weights\<close>, \<open>scores\<close> or
  \<open>impurities\<close> once the bin count is known; an error of the bin count loop is
  \<open>Error_OutOfMemory\<close>. In each case the only write is the zeroing of the intercept slot of
  line 188.
\<close>

theorem C9_error_classes:
  "(int k_cDimensionsMax < countDimensions \<longrightarrow>
      Purify k_cDimensionsMax tolerance countDimensions dimensionLengths weights m =
        Some (Inr (Error_OutOfMemory,
          m\<lparr>interceptOut_slot := (if interceptOut_slot m \<noteq> None then Some 0 else None)\<rparr>)))
   \<and> (countDimensions < 0 \<longrightarrow>
      Purify k_cDimensionsMax tolerance countDimensions dimensionLengths weights m =
        Some (Inr (Error_IllegalParamVal,
          m\<lparr>interceptOut_slot := (if interceptOut_slot m \<noteq> None then Some 0 else None)\<rparr>)))
   \<and> (1 \<le> countDimensions \<and> countDimensions \<le> int k_cDimensionsMax \<longrightarrow>
        (dimensionLengths = None \<longrightarrow>
           Purify k_cDimensionsMax tolerance countDimensions dimensionLengths weights m =
             Some (Inr (Error_IllegalParamVal,
               m\<lparr>interceptOut_slot :=
                   (if interceptOut_slot m \<noteq> None then Some 0 else None)\<rparr>)))
        \<and> (dimensionLengths = Some lens \<and> length lens = nat countDimensions \<longrightarrow>
            ((\<exists>l\<in>set lens. l < 0) \<longrightarrow>
               Purify k_cDimensionsMax tolerance countDimensions dimensionLengths weights m =
                 Some (Inr (Error_IllegalParamVal,
                   m\<lparr>interceptOut_slot :=
                       (if interceptOut_slot m \<noteq> None then Some 0 else None)\<rparr>)))
            \<and> ((\<forall>l\<in>set lens. 1 \<le> l) \<longrightarrow>
                 (\<forall>e. count_tensor_bins lens 1 = Inr (Inl e) \<longrightarrow>
                    e = Error_OutOfMemory
                    \<and> Purify k_cDimensionsMax tolerance countDimensions dimensionLengths weights m =
                        Some (Inr (Error_OutOfMemory,
                          m\<lparr>interceptOut_slot :=
                              (if interceptOut_slot m \<noteq> None then Some 0 else None)\<rparr>)))
                 \<and> (\<forall>cTensorBins. count_tensor_bins lens 1 = Inr (Inr cTensorBins) \<longrightarrow>
                      weights = None \<or> scores_buf m = None \<or> impurities_buf m = None \<longrightarrow>
                      Purify k_cDimensionsMax tolerance countDimensions dimensionLengths weights m =
                        Some (Inr (Error_IllegalParamVal,
                          m\<lparr>interceptOut_slot :=
                              (if interceptOut_slot m \<noteq> None then Some 0 else None)\<rparr>))))))"
  by (auto simp add: Purify_def purify_buffers_def Let_def check_lengths_negative check_lengths_positive
      dest: count_tensor_bins_error split: option.splits)


theorem C9_error_classes_witness:
  "Purify 63 0 64 (Some (replicate 64 1)) (Some [1])
     \<lparr>scores_buf = Some [5], impurities_buf = Some (replicate 64 0),
      interceptOut_slot = Some 7\<rparr> =
     Some (Inr (Error_OutOfMemory,
       \<lparr>scores_buf = Some [5], impurities_buf = Some (replicate 64 0),
        interceptOut_slot = Some 0\<rparr>))
   \<and> Purify 63 0 (- 1) None None
     \<lparr>scores_buf = None, impurities_buf = None, interceptOut_slot = None\<rparr> =
     Some (Inr (Error_IllegalParamVal,
       \<lparr>scores_buf = None, impurities_buf = None, interceptOut_slot = None\<rparr>))
   \<and> Purify 63 0 2 (Some [2, - 3]) (Some [1, 1])
     \<lparr>scores_buf = Some [1, 2], impurities_buf = Some [0, 0, 0], interceptOut_slot = None\<rparr> =
     Some (Inr (Error_IllegalParamVal,
       \<lparr>scores_buf = Some [1, 2], impurities_buf = Some [0, 0, 0], interceptOut_slot = None\<rparr>))
   \<and> Purify 63 0 1 (Some [2]) None
     \<lparr>scores_buf = Some [1, 2], impurities_buf = Some [0], interceptOut_slot = None\<rparr> =
     Some (Inr (Error_IllegalParamVal,
       \<lparr>scores_buf = Some [1, 2], impurities_buf = Some [0], interceptOut_slot = None\<rparr>))"
  using C9_error_classes [of 63 64 0 "Some (replicate 64 1)" "Some [1]"
     "\<lparr>scores_buf = Some [5], impurities_buf = Some (replicate 64 0),
       interceptOut_slot = Some 7\<rparr>" "[]"]
    C9_error_classes [of 63 "- 1" 0 None None
     "\<lparr>scores_buf = None, impurities_buf = None, interceptOut_slot = None\<rparr>" "[]"]
    C9_error_classes [of 63 2 0 "Some [2, - 3]" "Some [1, 1]"
     "\<lparr>scores_buf = Some [1, 2], impurities_buf = Some [0, 0, 0], interceptOut_slot = None\<rparr>"
     "[2, - 3]"]
    C9_error_classes [of 63 1 0 "Some [2]" None
     "\<lparr>scores_buf = Some [1, 2], impurities_buf = Some [0], interceptOut_slot = None\<rparr>" "[2]"]
  by (simp add: IsConvertError_size_t_def IsMultiplyError_def SIZE_MAX_def)

text \<open>
  Claim C9, as the specification states it, fails: with \<open>k_cDimensionsMax = 63\<close>, a tensor of
  64 dimensions of extent 1 (one cell) is rejected with \<open>Error_OutOfMemory\<close>, which is not
  the invalid-argument code \<open>Error_IllegalParamVal\<close>.
\<close>

theorem C9_not_illegal_param_counterexample:
  "Purify 63 0 64 (Some (replicate 64 1)) (Some [1])
     \<lparr>scores_buf = Some [5], impurities_buf = Some (replicate 64 0),
      interceptOut_slot = Some 7\<rparr> =
     Some (Inr (Error_OutOfMemory,
       \<lparr>scores_buf = Some [5], impurities_buf = Some (replicate 64 0),
        interceptOut_slot = Some 0\<rparr>))
   \<and> Error_OutOfMemory \<noteq> Error_IllegalParamVal"
  by (simp add: Purify_def)

text \<open>
  Claim C10, as the code has it. \<open>Purify\<close> returns \<open>Error_None\<close> when \<open>countDimensions\<close>
  is 0, and when \<open>countDimensions\<close> is between 1 and \<open>k_cDimensionsMax\<close> and
  \<open>dimensionLengths\<close> holds \<open>countDimensions\<close> non-negative lengths of which at least one
  is 0. In both cases the result is the same for every \<open>weights\<close>, \<open>scores\<close> and
  \<open>impurities\<close>, null pointers included, and these buffers are returned as they were.
\<close>

theorem C10_trivial_success_skips_buffers:
  "(countDimensions = 0 \<longrightarrow>
      Purify k_cDimensionsMax tolerance countDimensions dimensionLengths weights m =
        Some (Inr (Error_None,
          m\<lparr>interceptOut_slot := (if interceptOut_slot m \<noteq> None then Some 0 else None)\<rparr>)))
   \<and> (1 \<le> countDimensions \<and> countDimensions \<le> int k_cDimensionsMax
        \<and> dimensionLengths = Some lens \<and> length lens = nat countDimensions
        \<and> (\<forall>l\<in>set lens. 0 \<le> l) \<and> 0 \<in> set lens \<longrightarrow>
      Purify k_cDimensionsMax tolerance countDimensions dimensionLengths weights m =
        Some (Inr (Error_None,
          m\<lparr>interceptOut_slot := (if interceptOut_slot m \<noteq> None then Some 0 else None)\<rparr>)))"
  by (auto simp add: Purify_def check_lengths_nonneg)

theorem C10_trivial_success_witness:
  "Purify 63 0 0 None None
      \<lparr>scores_buf = None, impurities_buf = None, interceptOut_slot = Some 7\<rparr> =
     Some (Inr (Error_None,
       \<lparr>scores_buf = None, impurities_buf = None, interceptOut_slot = Some 0\<rparr>))
   \<and> Purify 63 0 2 (Some [3, 0]) None
      \<lparr>scores_buf = None, impurities_buf = None, interceptOut_slot = Some 7\<rparr> =
     Some (Inr (Error_None,
       \<lparr>scores_buf = None, impurities_buf = None, interceptOut_slot = Some 0\<rparr>))"
  using C10_trivial_success_skips_buffers [of 0 63 0 None None
      "\<lparr>scores_buf = None, impurities_buf = None, interceptOut_slot = Some 7\<rparr>" "[]"]
    C10_trivial_success_skips_buffers [of 2 63 0 "Some [3, 0]" None
      "\<lparr>scores_buf = None, impurities_buf = None, interceptOut_slot = Some 7\<rparr>" "[3, 0]"]
  by simp

text \<open>
  Claim C10, as the specification states it, fails: the test of line 200 comes before the
  empty-tensor return. With \<open>k_cDimensionsMax = 63\<close>, a call with 64 dimension lengths, all
  of them 0, returns \<open>Error_OutOfMemory\<close> and not success.
\<close>

theorem C10_empty_tensor_counterexample:
  "Purify 63 0 64 (Some (replicate 64 0)) None
      \<lparr>scores_buf = None, impurities_buf = None, interceptOut_slot = None\<rparr> =
     Some (Inr (Error_OutOfMemory,
       \<lparr>scores_buf = None, impurities_buf = None, interceptOut_slot = None\<rparr>))
   \<and> Error_OutOfMemory \<noteq> Error_None"
  by (simp add: Purify_def)

section \<open>The totals and the return on zero weight\<close>

lemma totals_foldl:
  "foldl (\<lambda>(impurityMax, impurityTotalAll, weightTotalAll) i.
              (impurityMax + \<bar>s ! i * w ! i\<bar>,
               impurityTotalAll + s ! i * w ! i,
               weightTotalAll + w ! i)) (a, b, c) is
   = (a + (\<Sum>i\<leftarrow>is. \<bar>s ! i * w ! i\<bar>), b + (\<Sum>i\<leftarrow>is. s ! i * w ! i),
      c + (\<Sum>i\<leftarrow>is. w ! i))"
  by (induction "is" arbitrary: a b c) (simp_all add: add.assoc)

lemma totals_eq:
  "totals T w s =
     ((\<Sum>i\<leftarrow>[0..<T]. \<bar>s ! i * w ! i\<bar>), (\<Sum>i\<leftarrow>[0..<T]. s ! i * w ! i),
      (\<Sum>i\<leftarrow>[0..<T]. w ! i))"
  unfolding totals_def by (simp add: totals_foldl)

lemma sum_list_nth_upt:
  "length xs = n \<Longrightarrow> (\<Sum>i\<leftarrow>[0..<n]. xs ! i) = sum_list (xs :: real list)"
  by (auto simp add: map_nth)

text \<open>
  Claim C4. When the weights of the \<open>cTensorBins\<close> cells sum to zero, \<open>PurifyInternal\<close>
  returns \<open>Error_None\<close> and leaves the scores, the impurities and the intercept slot as they
  were.
\<close>

theorem C4_zero_weight_noop:
  "1 \<le> cTensorBins \<Longrightarrow> 1 \<le> cDimensions \<Longrightarrow> length aWeights = cTensorBins \<Longrightarrow>
   sum_list aWeights = 0 \<Longrightarrow>
   PurifyInternal cTensorBins tolerance cDimensions aDimensionLengths aWeights b =
     Some (Inr (Error_None, b))"
  by (simp add: PurifyInternal_def PurifyInternal_run_def purify_setup_def totals_eq
      sum_list_nth_upt)

theorem C4_zero_weight_witness:
  "1 \<le> (4::nat) \<and> 1 \<le> (2::nat) \<and> length [0, 0, 0, 0 :: real] = 4
   \<and> sum_list [0, 0, 0, 0 :: real] = 0
   \<and> PurifyInternal 4 0 2 [2, 2] [0, 0, 0, 0]
        \<lparr>aScores = [1, 2, 3, 4], aImpurities = [9, 9, 9, 9], pInterceptOut = Some 0\<rparr> =
      Some (Inr (Error_None,
        \<lparr>aScores = [1, 2, 3, 4], aImpurities = [9, 9, 9, 9], pInterceptOut = Some 0\<rparr>))"
  using C4_zero_weight_noop [of 4 2 "[0, 0, 0, 0]" 0 "[2, 2]"
      "\<lparr>aScores = [1, 2, 3, 4], aImpurities = [9, 9, 9, 9], pInterceptOut = Some 0\<rparr>"]
  by simp

section \<open>Decoding a surface bin\<close>

lemma find_sweep_Inr:
  "\<forall>c\<in>set suf. 0 < c \<and> T mod c = 0 \<Longrightarrow> r < (\<Sum>c\<leftarrow>suf. T div c) \<Longrightarrow>
   \<exists>j r'. j < length suf \<and>
     find_sweep T suf i inc r = Inr (i + j, suf ! j, inc * prod_list (take j suf), r') \<and>
     r' < T div (suf ! j) \<and> r = (\<Sum>c\<leftarrow>take j suf. T div c) + r'"
proof (induction suf arbitrary: i inc r)
  case Nil
  then show ?case by simp
next
  case (Cons c cs)
  show ?case
  proof (cases "r < T div c")
    case True
    with Cons.prems show ?thesis
      by (intro exI [of _ 0] exI [of _ r]) simp
  next
    case False
    then have "r - T div c < (\<Sum>c\<leftarrow>cs. T div c)"
      using Cons.prems by simp
    from Cons.IH [OF _ this, of "Suc i" "inc * c"] Cons.prems
    obtain j r' where j: "j < length cs"
      "find_sweep T cs (Suc i) (inc * c) (r - T div c) =
         Inr (Suc i + j, cs ! j, inc * c * prod_list (take j cs), r')"
      "r' < T div (cs ! j)" "r - T div c = (\<Sum>c\<leftarrow>take j cs. T div c) + r'"
      by auto
    with False Cons.prems show ?thesis
      by (intro exI [of _ "Suc j"] exI [of _ r']) (simp add: mult.assoc)
  qed
qed

lemma tensor_offset_skip:
  "d < i \<or> i + length ds \<le> d \<Longrightarrow>
   tensor_offset ds i d r t m = (t + m * (r mod prod_list ds), r div prod_list ds)"
proof (induction ds arbitrary: i r t m)
  case Nil
  then show ?case by simp
next
  case (Cons c cs)
  then have "i \<noteq> d" and "d < Suc i \<or> Suc i + length cs \<le> d" by auto
  with Cons.IH [of "Suc i"] show ?case
    by (simp add: mod_mult2_eq div_mult2_eq algebra_simps)
qed

lemma tensor_offset_append:
  "tensor_offset (xs @ ys) i d r t m =
     (case tensor_offset xs i d r t m of
        (t', r') \<Rightarrow> tensor_offset ys (i + length xs) d r' t' (m * prod_list xs))"
  by (induction xs arbitrary: i r t m) (simp_all add: mult.assoc)

lemma tensor_offset_sweep:
  "tensor_offset (pre @ c # post) 0 (length pre) r 0 1 =
     (r mod prod_list pre + prod_list pre * c * ((r div prod_list pre) mod prod_list post),
      (r div prod_list pre) div prod_list post)"
  by (simp add: tensor_offset_append tensor_offset_skip)

lemma valid_shape_mod:
  "valid_shape T D lens \<Longrightarrow> \<forall>c\<in>set lens. 0 < c \<and> T mod c = 0"
proof -
  have "c \<in> set xs \<Longrightarrow> c dvd prod_list xs" for c :: nat and xs
    by (induction xs) auto
  then show "valid_shape T D lens \<Longrightarrow> \<forall>c\<in>set lens. 0 < c \<and> T mod c = 0"
    by (auto simp: valid_shape_def)
qed

lemma count_surface_bins_acc:
  "\<forall>c\<in>set ds. 0 < c \<and> T mod c = 0 \<Longrightarrow>
   count_surface_bins T ds acc = Inr (acc + (\<Sum>c\<leftarrow>ds. T div c))"
  by (induction ds arbitrary: acc) simp_all

lemma count_surface_bins_valid:
  "valid_shape T D lens \<Longrightarrow> count_surface_bins T (take D lens) 0 = Inr (surface_bins T lens)"
  using valid_shape_mod [of T D lens]
  by (simp add: count_surface_bins_acc surface_bins_def valid_shape_def)

lemma shape_split:
  assumes "valid_shape T D lens" "d < D"
  shows "T = prod_list (take d lens) * lens ! d * prod_list (drop (Suc d) lens)"
    and "T div (lens ! d) = prod_list (take d lens) * prod_list (drop (Suc d) lens)"
    and "0 < prod_list (take d lens)" and "0 < lens ! d" and "0 < prod_list (drop (Suc d) lens)"
proof -
  from assms have d: "d < length lens" and pos: "\<forall>c\<in>set lens. 0 < c"
    and T: "prod_list lens = T"
    by (auto simp: valid_shape_def Suc_le_eq)
  have "lens = take d lens @ lens ! d # drop (Suc d) lens"
    using d by (rule id_take_nth_drop)
  then have "prod_list lens = prod_list (take d lens) * lens ! d * prod_list (drop (Suc d) lens)"
    by (metis prod_list.Cons prod_list.append mult.assoc)
  with T show 1: "T = prod_list (take d lens) * lens ! d * prod_list (drop (Suc d) lens)"
    by simp
  show 2: "0 < lens ! d" using d pos by simp
  have "\<forall>c\<in>set xs. 0 < c \<Longrightarrow> 0 < prod_list xs" for xs :: "nat list"
    by (induction xs) auto
  with pos T have "0 < T" by blast
  with 1 show "0 < prod_list (take d lens)" "0 < prod_list (drop (Suc d) lens)"
    by auto
  from 1 2 show "T div (lens ! d) = prod_list (take d lens) * prod_list (drop (Suc d) lens)"
    by (simp add: mult.assoc mult.left_commute)
qed

lemma decode_valid:
  assumes "valid_shape T D lens" "k < surface_bins T lens"
  shows "\<exists>d r. d < D \<and> r < T div (lens ! d) \<and> k = surface_bins T (take d lens) + r \<and>
     find_sweep T (take D lens) 0 1 k = Inr (d, lens ! d, prod_list (take d lens), r) \<and>
     tensor_offset (take D lens) 0 d r 0 1 =
       (r mod prod_list (take d lens)
          + prod_list (take d lens) * lens ! d * (r div prod_list (take d lens)), 0)"
proof -
  from assms(1) have len: "length lens = D" by (simp add: valid_shape_def)
  from find_sweep_Inr [OF valid_shape_mod [OF assms(1)], of k 0 1] assms(2)
  obtain d r where d: "d < length lens"
    and fs: "find_sweep T lens 0 1 k = Inr (d, lens ! d, prod_list (take d lens), r)"
    and r: "r < T div (lens ! d)" and k: "k = (\<Sum>c\<leftarrow>take d lens. T div c) + r"
    by (auto simp: surface_bins_def)
  let ?P = "prod_list (take d lens)" and ?Q = "prod_list (drop (Suc d) lens)"
  from d len have dD: "d < D" by simp
  note sp = shape_split [OF assms(1) dD]
  have split: "lens = take d lens @ lens ! d # drop (Suc d) lens"
    using d by (rule id_take_nth_drop)
  have "r div ?P < ?Q"
    using r sp(2) sp(3) by (simp add: less_mult_imp_div_less mult.commute)
  then have q: "(r div ?P) mod ?Q = r div ?P" "(r div ?P) div ?Q = 0" by simp_all
  have "tensor_offset (take d lens @ lens ! d # drop (Suc d) lens) 0 (length (take d lens)) r 0 1
      = (r mod ?P + ?P * lens ! d * (r div ?P), 0)"
    unfolding tensor_offset_sweep q ..
  moreover have "length (take d lens) = d" using d by simp
  ultimately have "tensor_offset lens 0 d r 0 1 = (r mod ?P + ?P * lens ! d * (r div ?P), 0)"
    using split by metis
  with dD r k fs len show ?thesis
    by (intro exI [of _ d] exI [of _ r]) (simp add: surface_bins_def)
qed

text \<open>
  Claim C6. For a shape of \<open>cDimensions\<close> positive extents whose product is
  \<open>cTensorBins\<close>, the loop of lines 72--80 counts the sum over the dimensions of
  \<open>cTensorBins / extent\<close> surface bins, and for every surface bin below that count no
  assertion of the decoding fails: the sweep dimension is found before the extents run out,
  and \<open>iDimensionSurfaceBin\<close> is 0 when the loop of lines 114--122 ends.
\<close>

theorem C6_decoding_residual_zero:
  assumes "valid_shape cTensorBins cDimensions aDimensionLengths"
    and "iAllSurfaceBin < surface_bins cTensorBins aDimensionLengths"
  shows "count_surface_bins cTensorBins (take cDimensions aDimensionLengths) 0 =
           Inr (surface_bins cTensorBins aDimensionLengths)
     \<and> (\<exists>iSweepDimension cSweepBins cTensorIncrement iDimensionSurfaceBin iTensor.
          iSweepDimension < cDimensions
          \<and> find_sweep cTensorBins (take cDimensions aDimensionLengths) 0 1 iAllSurfaceBin =
              Inr (iSweepDimension, cSweepBins, cTensorIncrement, iDimensionSurfaceBin)
          \<and> tensor_offset (take cDimensions aDimensionLengths) 0 iSweepDimension
               iDimensionSurfaceBin 0 1 = (iTensor, 0)
          \<and> decode_surface_bin cTensorBins cDimensions aDimensionLengths iAllSurfaceBin =
              Inr (iSweepDimension, iTensor, cTensorIncrement, cSweepBins))"
proof -
  from decode_valid [OF assms] obtain d r where
    "d < cDimensions"
    "find_sweep cTensorBins (take cDimensions aDimensionLengths) 0 1 iAllSurfaceBin =
       Inr (d, aDimensionLengths ! d, prod_list (take d aDimensionLengths), r)"
    "tensor_offset (take cDimensions aDimensionLengths) 0 d r 0 1 =
       (r mod prod_list (take d aDimensionLengths)
          + prod_list (take d aDimensionLengths) * aDimensionLengths ! d
            * (r div prod_list (take d aDimensionLengths)), 0)"
    by blast
  then show ?thesis
    using count_surface_bins_valid [OF assms(1)]
    by (auto simp: decode_surface_bin_def)
qed


theorem C6_decoding_witness:
  "valid_shape 12 3 [2, 3, 2] \<and> (15::nat) < surface_bins 12 [2, 3, 2]
   \<and> count_surface_bins 12 (take 3 [2, 3, 2]) 0 = Inr 16
   \<and> find_sweep 12 (take 3 [2, 3, 2]) 0 1 15 = Inr (2, 2, 6, 5)
   \<and> tensor_offset (take 3 [2, 3, 2]) 0 2 5 0 1 = (5, 0)
   \<and> decode_surface_bin 12 3 [2, 3, 2] 15 = Inr (2, 5, 6, 2)"
  using C6_decoding_residual_zero [of 12 3 "[2, 3, 2]" 15]
  by (simp add: valid_shape_def surface_bins_def decode_surface_bin_def)

section \<open>The cells of a slice, and one surface bin\<close>

lemma slice_cells_valid:
  assumes "valid_shape T D lens" "k < surface_bins T lens"
  shows "\<exists>d r. d < D \<and> r < prod_list (take d lens) * prod_list (drop (Suc d) lens)
     \<and> k = surface_bins T (take d lens) + r
     \<and> decode_surface_bin T D lens k =
         Inr (d, r mod prod_list (take d lens)
                   + prod_list (take d lens) * lens ! d * (r div prod_list (take d lens)),
              prod_list (take d lens), lens ! d)
     \<and> sweep_dimension T D lens k = d
     \<and> slice_cells T D lens k =
         map (\<lambda>n. r mod prod_list (take d lens)
                   + prod_list (take d lens) * lens ! d * (r div prod_list (take d lens))
                   + n * prod_list (take d lens)) [0..<lens ! d]"
proof -
  from decode_valid [OF assms] obtain d r where dr: "d < D" "r < T div (lens ! d)"
    "k = surface_bins T (take d lens) + r"
    "find_sweep T (take D lens) 0 1 k = Inr (d, lens ! d, prod_list (take d lens), r)"
    "tensor_offset (take D lens) 0 d r 0 1 =
       (r mod prod_list (take d lens)
          + prod_list (take d lens) * lens ! d * (r div prod_list (take d lens)), 0)"
    by blast
  from dr(2) shape_split(2) [OF assms(1) dr(1)]
  have "r < prod_list (take d lens) * prod_list (drop (Suc d) lens)" by simp
  with dr show ?thesis
    by (intro exI [of _ d] exI [of _ r])
      (simp add: decode_surface_bin_def slice_cells_def sweep_dimension_def slice_indexes_def)
qed

lemma slice_cells_bound:
  assumes "valid_shape T D lens" "k < surface_bins T lens" "j \<in> set (slice_cells T D lens k)"
  shows "j < T"
proof -
  from slice_cells_valid [OF assms(1,2)] obtain d r where dr: "d < D"
    "r < prod_list (take d lens) * prod_list (drop (Suc d) lens)"
    "slice_cells T D lens k =
         map (\<lambda>n. r mod prod_list (take d lens)
                   + prod_list (take d lens) * lens ! d * (r div prod_list (take d lens))
                   + n * prod_list (take d lens)) [0..<lens ! d]"
    by blast
  let ?P = "prod_list (take d lens)" and ?Q = "prod_list (drop (Suc d) lens)" and ?c = "lens ! d"
  note sp = shape_split [OF assms(1) dr(1)]
  from assms(3) dr(3) obtain n where n: "n < ?c" "j = r mod ?P + ?P * ?c * (r div ?P) + n * ?P"
    by auto
  have "r mod ?P + n * ?P < Suc n * ?P" using sp(3) by simp
  also have "\<dots> \<le> ?c * ?P" using n(1) by (intro mult_le_mono1) simp
  finally have 1: "r mod ?P + n * ?P < ?P * ?c" by (simp add: mult.commute)
  have "r div ?P < ?Q" using dr(2) sp(3) by (simp add: less_mult_imp_div_less mult.commute)
  then have "Suc (r div ?P) \<le> ?Q" by simp
  then have "?P * ?c * Suc (r div ?P) \<le> ?P * ?c * ?Q" by (rule mult_le_mono2)
  moreover have "j < ?P * ?c * Suc (r div ?P)" using 1 n(2) by simp
  ultimately show ?thesis using sp(1) by simp
qed

lemma slice_cells_distinct:
  assumes "valid_shape T D lens" "k < surface_bins T lens"
  shows "distinct (slice_cells T D lens k)"
proof -
  from slice_cells_valid [OF assms(1,2)] obtain d r where dr: "d < D"
    "slice_cells T D lens k =
         map (\<lambda>n. r mod prod_list (take d lens)
                   + prod_list (take d lens) * lens ! d * (r div prod_list (take d lens))
                   + n * prod_list (take d lens)) [0..<lens ! d]"
    by blast
  note sp = shape_split [OF assms(1) dr(1)]
  show ?thesis unfolding dr(2) using sp(3)
    by (auto simp: distinct_map intro!: inj_onI)
qed

lemma foldl_add_at_length [simp]: "length (foldl (add_at v) xs is) = length xs"
  by (induction "is" arbitrary: xs) (simp_all add: add_at_def)

lemma foldl_add_at_nth:
  "distinct is \<Longrightarrow> \<forall>i\<in>set is. i < length xs \<Longrightarrow> j < length xs \<Longrightarrow>
   foldl (add_at v) xs is ! j = (if j \<in> set is then xs ! j + v else xs ! j)"
proof (induction "is" arbitrary: xs)
  case Nil
  then show ?case by simp
next
  case (Cons i "is")
  from Cons.prems have "distinct is" "\<forall>i\<in>set is. i < length (add_at v xs i)"
    "j < length (add_at v xs i)" "i \<notin> set is" "i < length xs"
    by (simp_all add: add_at_def)
  with Cons.IH [of "add_at v xs i"] show ?case
    by (auto simp: add_at_def nth_list_update)
qed

lemma slice_sums_foldl:
  "foldl (\<lambda>(impurity, weightTotal) iTensorCur.
                    (impurity + s ! iTensorCur * w ! iTensorCur,
                     weightTotal + w ! iTensorCur)) (a, b) cells
   = (a + (\<Sum>i\<leftarrow>cells. s ! i * w ! i), b + (\<Sum>i\<leftarrow>cells. w ! i))"
  by (induction cells arbitrary: a b) (simp_all add: add.assoc)

lemma slice_impurity_eq:
  "slice_impurity w s cells =
     (if (\<Sum>i\<leftarrow>cells. w ! i) = 0 then 0
      else (\<Sum>i\<leftarrow>cells. s ! i * w ! i) / (\<Sum>i\<leftarrow>cells. w ! i))"
  by (simp add: slice_impurity_def slice_sums_foldl)

lemma purify_surface_bin_valid:
  assumes "valid_shape T D lens" "k < surface_bins T lens"
  shows "purify_surface_bin T D lens w M k (cur, retry, b) =
     Inr (cur + \<bar>slice_impurity w (aScores b) (slice_cells T D lens k)\<bar>,
          retry \<or> M < \<bar>slice_impurity w (aScores b) (slice_cells T D lens k)\<bar>,
          b\<lparr>aImpurities := add_at (slice_impurity w (aScores b) (slice_cells T D lens k))
                              (aImpurities b) k,
            aScores := foldl (add_at (- slice_impurity w (aScores b) (slice_cells T D lens k)))
                         (aScores b) (slice_cells T D lens k)\<rparr>)"
proof -
  from slice_cells_valid [OF assms] obtain d it P c where
    "decode_surface_bin T D lens k = Inr (d, it, P, c)"
    by blast
  then show ?thesis
    by (simp add: purify_surface_bin_def slice_cells_def Let_def)
qed

section \<open>Invariants of a pass and of the loop\<close>

lemma purify_loop_last_pass:
  assumes run: "purify_loop T D lens w M S prev n b = Some (Inr e)"
    and inv: "I b"
    and step: "\<And>b c r b'. I b \<Longrightarrow> purify_pass T D lens w M S b = Inr (c, r, b') \<Longrightarrow> I b'"
  shows "\<exists>b0 c r. I b0 \<and> purify_pass T D lens w M S b0 = Inr (c, r, exit_buffers e)
           \<and> (exit_by_guard e \<or> \<not> r)"
proof -
  define P where "P = (\<lambda>T' D' lens' w' M' S' (prev :: real option) (n :: nat) b (y :: fault + loop_exit).
        T' = T \<and> D' = D \<and> lens' = lens \<and> w' = w \<and> M' = M \<and> S' = S \<longrightarrow> I b \<longrightarrow>
        (\<forall>e. y = Inr e \<longrightarrow>
          (\<exists>b0 c r. I b0 \<and> purify_pass T D lens w M S b0 = Inr (c, r, exit_buffers e)
             \<and> (exit_by_guard e \<or> \<not> r))))"
  have "P T D lens w M S prev n b (Inr e)"
  proof (rule purify_loop.raw_induct [where P = P, OF _ run])
    fix loop T' D' lens' w' M' S' prev n b y
    assume IH: "\<And>T' D' lens' w' M' S' prev n b y.
        loop T' D' lens' w' M' S' prev n b = Some y \<Longrightarrow> P T' D' lens' w' M' S' prev n b y"
      and body: "(case purify_pass T' D' lens' w' M' S' b of
          Inl f \<Rightarrow> Some (Inl f)
        | Inr (impurityCur, bRetry, b') \<Rightarrow>
            if (case prev of None \<Rightarrow> False | Some p \<Rightarrow> p \<le> impurityCur)
            then Some (Inr \<lparr>exit_buffers = b', exit_passes = Suc n, exit_by_guard = True\<rparr>)
            else if bRetry then loop T' D' lens' w' M' S' (Some impurityCur) (Suc n) b'
            else Some (Inr \<lparr>exit_buffers = b', exit_passes = Suc n, exit_by_guard = False\<rparr>))
         = Some y"
    show "P T' D' lens' w' M' S' prev n b y"
      unfolding P_def
    proof (intro impI allI)
      fix e
      assume eq: "T' = T \<and> D' = D \<and> lens' = lens \<and> w' = w \<and> M' = M \<and> S' = S"
        and Ib: "I b" and y: "y = Inr e"
      show "\<exists>b0 c r. I b0 \<and> purify_pass T D lens w M S b0 = Inr (c, r, exit_buffers e)
             \<and> (exit_by_guard e \<or> \<not> r)"
      proof (cases "purify_pass T D lens w M S b")
        case (Inl f)
        with body eq y show ?thesis by simp
      next
        case (Inr st)
        obtain c r b' where st: "st = (c, r, b')" by (cases st) auto
        have Ib': "I b'" using step [OF Ib] Inr st by simp
        show ?thesis
        proof (cases "case prev of None \<Rightarrow> False | Some p \<Rightarrow> p \<le> c")
          case True
          with body eq y Inr st
          have "e = \<lparr>exit_buffers = b', exit_passes = Suc n, exit_by_guard = True\<rparr>"
            by simp
          with Ib Inr st show ?thesis by auto
        next
          case False
          show ?thesis
          proof (cases r)
            case True
            with body eq y Inr st False
            have "loop T D lens w M S (Some c) (Suc n) b' = Some (Inr e)"
              by simp
            from IH [OF this] Ib' show ?thesis by (simp add: P_def)
          next
            case rF: False
            with body eq y Inr st False
            have "e = \<lparr>exit_buffers = b', exit_passes = Suc n, exit_by_guard = False\<rparr>"
              by simp
            with Ib Inr st rF show ?thesis by auto
          qed
        qed
      qed
    qed
  qed
  with inv show ?thesis by (simp add: P_def)
qed

lemma purify_loop_invariant:
  assumes "purify_loop T D lens w M S prev n b = Some (Inr e)"
    and "I b"
    and "\<And>b c r b'. I b \<Longrightarrow> purify_pass T D lens w M S b = Inr (c, r, b') \<Longrightarrow> I b'"
  shows "I (exit_buffers e)"
proof -
  from purify_loop_last_pass [of T D lens w M S prev n b e I, OF assms(1,2)] assms(3)
  obtain b0 c r where "I b0" "purify_pass T D lens w M S b0 = Inr (c, r, exit_buffers e)"
    by blast
  then show ?thesis using assms(3) by blast
qed

lemma purify_bins_invariant:
  assumes "valid_shape T D lens" and "\<forall>k\<in>set ks. k < surface_bins T lens" and "I st"
    and "\<And>k st st'. k \<in> set ks \<Longrightarrow> I st \<Longrightarrow>
           purify_surface_bin T D lens w M k st = Inr st' \<Longrightarrow> I st'"
  shows "\<exists>st'. purify_bins T D lens w M ks st = Inr st' \<and> I st'"
  using assms(2-)
proof (induction ks arbitrary: st)
  case Nil
  then show ?case by simp
next
  case (Cons k ks)
  obtain cur retry b where st: "st = (cur, retry, b)" by (cases st) auto
  from Cons.prems(1) have k: "k < surface_bins T lens" by simp
  from purify_surface_bin_valid [OF assms(1) k, of w M cur retry b]
  obtain st1 where st1: "purify_surface_bin T D lens w M k st = Inr st1"
    unfolding st by blast
  have "I st1" using Cons.prems(3) [of k st st1] Cons.prems(2) st1 by simp
  have "\<exists>st'. purify_bins T D lens w M ks st1 = Inr st' \<and> I st'"
  proof (rule Cons.IH)
    show "\<forall>k\<in>set ks. k < surface_bins T lens" using Cons.prems(1) by simp
    show "I st1" by fact
  next
    fix k' s s'
    assume "k' \<in> set ks" "I s" "purify_surface_bin T D lens w M k' s = Inr s'"
    then show "I s'" using Cons.prems(3) [of k' s s'] by simp
  qed
  with st1 show ?case by simp
qed

lemma purify_pass_invariant:
  assumes "valid_shape T D lens" and "I b"
    and "\<And>k cur retry b st'. k < surface_bins T lens \<Longrightarrow> I b \<Longrightarrow>
           purify_surface_bin T D lens w M k (cur, retry, b) = Inr st' \<Longrightarrow> I (snd (snd st'))"
  shows "\<exists>cur retry b'. purify_pass T D lens w M (surface_bins T lens) b = Inr (cur, retry, b')
           \<and> I b'"
proof -
  have "\<exists>st'. purify_bins T D lens w M [0..<surface_bins T lens] (0, False, b) = Inr st'
          \<and> I (snd (snd st'))"
  proof (rule purify_bins_invariant [OF assms(1), where I = "\<lambda>st. I (snd (snd st))"])
    show "\<forall>k\<in>set [0..<surface_bins T lens]. k < surface_bins T lens" by simp
    show "I (snd (snd (0::real, False, b)))" using assms(2) by simp
  next
    fix k st st'
    assume "k \<in> set [0..<surface_bins T lens]" "I (snd (snd st))"
      "purify_surface_bin T D lens w M k st = Inr st'"
    then show "I (snd (snd st'))"
      using assms(3) [of k "snd (snd st)" "fst st" "fst (snd st)" st'] by simp
  qed
  then show ?thesis by (auto simp: purify_pass_def)
qed

lemma removed_from_cell_step:
  assumes "k < surface_bins T lens" "surface_bins T lens \<le> length imps"
  shows "removed_from_cell T D lens (add_at m imps k) i =
     removed_from_cell T D lens imps i + (if i \<in> set (slice_cells T D lens k) then m else 0)"
proof -
  let ?S = "surface_bins T lens"
  have "removed_from_cell T D lens (add_at m imps k) i =
     (\<Sum>k'\<in>{0..<?S}. (if i \<in> set (slice_cells T D lens k') then imps ! k' else 0)
        + (if k' = k \<and> i \<in> set (slice_cells T D lens k) then m else 0))"
    unfolding removed_from_cell_def interv_sum_list_conv_sum_set_nat
    using assms by (intro sum.cong) (auto simp: add_at_def nth_list_update)
  also have "\<dots> = removed_from_cell T D lens imps i
      + (\<Sum>k'\<in>{0..<?S}. if k' = k \<and> i \<in> set (slice_cells T D lens k) then m else 0)"
    unfolding removed_from_cell_def interv_sum_list_conv_sum_set_nat
    by (simp add: sum.distrib)
  also have "(\<Sum>k'\<in>{0..<?S}. if k' = k \<and> i \<in> set (slice_cells T D lens k) then m else 0)
      = (if i \<in> set (slice_cells T D lens k) then m else 0)"
    using assms(1) by (cases "i \<in> set (slice_cells T D lens k)") simp_all
  finally show ?thesis .
qed

lemma conserved_step:
  assumes v: "valid_shape T D lens" and k: "k < surface_bins T lens"
    and c: "conserved T D lens base b"
    and s: "purify_surface_bin T D lens w M k (cur, retry, b) = Inr st'"
  shows "conserved T D lens base (snd (snd st'))"
proof -
  let ?cells = "slice_cells T D lens k"
  let ?m = "slice_impurity w (aScores b) ?cells"
  from s purify_surface_bin_valid [OF v k, of w M cur retry b]
  have b': "snd (snd st') = b\<lparr>aImpurities := add_at ?m (aImpurities b) k,
            aScores := foldl (add_at (- ?m)) (aScores b) ?cells\<rparr>"
    by auto
  from c have len: "length (aScores b) = T" "surface_bins T lens \<le> length (aImpurities b)"
    and eq: "\<forall>i<T. aScores b ! i + removed_from_cell T D lens (aImpurities b) i = base i"
    by (simp_all add: conserved_def)
  have inr: "\<forall>j\<in>set ?cells. j < length (aScores b)"
    using slice_cells_bound [OF v k] len by simp
  show ?thesis
    unfolding b' conserved_def
  proof (intro conjI allI impI)
    show "length (aScores (b\<lparr>aImpurities := add_at ?m (aImpurities b) k,
            aScores := foldl (add_at (- ?m)) (aScores b) ?cells\<rparr>)) = T"
      using len by simp
    show "surface_bins T lens \<le> length (aImpurities (b\<lparr>aImpurities := add_at ?m (aImpurities b) k,
            aScores := foldl (add_at (- ?m)) (aScores b) ?cells\<rparr>))"
      using len by (simp add: add_at_def)
  next
    fix i assume i: "i < T"
    have "foldl (add_at (- ?m)) (aScores b) ?cells ! i =
        (if i \<in> set ?cells then aScores b ! i + - ?m else aScores b ! i)"
      using i len by (intro foldl_add_at_nth slice_cells_distinct [OF v k] inr) simp
    then show "aScores (b\<lparr>aImpurities := add_at ?m (aImpurities b) k,
            aScores := foldl (add_at (- ?m)) (aScores b) ?cells\<rparr>) ! i
         + removed_from_cell T D lens (aImpurities (b\<lparr>aImpurities := add_at ?m (aImpurities b) k,
            aScores := foldl (add_at (- ?m)) (aScores b) ?cells\<rparr>)) i = base i"
      using eq i by (simp add: removed_from_cell_step [OF k len(2)])
  qed
qed

lemma conserved_pass:
  assumes "valid_shape T D lens" "conserved T D lens base b"
    "purify_pass T D lens w M (surface_bins T lens) b = Inr (cur, retry, b')"
  shows "conserved T D lens base b'"
  using purify_pass_invariant [OF assms(1), of "conserved T D lens base" b w M,
      OF assms(2) conserved_step [OF assms(1)]] assms(3)
  by auto

lemma conserved_loop:
  assumes "valid_shape T D lens" "conserved T D lens base b"
    "purify_loop T D lens w M (surface_bins T lens) prev n b = Some (Inr e)"
  shows "conserved T D lens base (exit_buffers e)"
  using purify_loop_invariant [OF assms(3), of "conserved T D lens base"] assms(2)
    conserved_pass [OF assms(1)]
  by blast

lemma valid_shape_pos: "valid_shape T D lens \<Longrightarrow> 1 \<le> T \<and> 1 \<le> D"
proof -
  have "\<forall>c\<in>set xs. 1 \<le> c \<Longrightarrow> 1 \<le> prod_list xs" for xs :: "nat list"
    by (induction xs) (auto simp: Suc_le_eq)
  then show "valid_shape T D lens \<Longrightarrow> 1 \<le> T \<and> 1 \<le> D"
    by (auto simp: valid_shape_def)
qed

lemma extract_intercept_eq:
  assumes "length (aScores b) = T"
  shows "extract_intercept T tot W b =
     (if pInterceptOut b \<noteq> None
      then b\<lparr>pInterceptOut := Some (tot / W), aScores := map (\<lambda>s. s - tot / W) (aScores b)\<rparr>
      else b)"
proof -
  have "foldl (add_at (- (tot / W))) (aScores b) [0..<T] = map (\<lambda>s. s - tot / W) (aScores b)"
    using assms by (intro nth_equalityI) (simp_all add: foldl_add_at_nth)
  then show ?thesis by (simp add: extract_intercept_def Let_def)
qed

lemma purify_setup_valid:
  assumes "valid_shape T D lens" "length w = T" "sum_list w \<noteq> 0"
  shows "purify_setup T tol D lens w b =
     Inr (Some ((\<Sum>i\<leftarrow>[0..<T]. \<bar>aScores b ! i * w ! i\<bar>) * tol / sum_list w,
                surface_bins T lens,
                (extract_intercept T (\<Sum>i\<leftarrow>[0..<T]. aScores b ! i * w ! i) (sum_list w) b)
                  \<lparr>aImpurities := memset_zero
                     (aImpurities (extract_intercept T (\<Sum>i\<leftarrow>[0..<T]. aScores b ! i * w ! i)
                         (sum_list w) b)) (surface_bins T lens)\<rparr>))"
  using assms valid_shape_pos [OF assms(1)] count_surface_bins_valid [OF assms(1)]
  by (simp add: purify_setup_def totals_eq sum_list_nth_upt Let_def)

lemma removed_from_cell_memset:
  "removed_from_cell T D lens (memset_zero imps (surface_bins T lens)) i = 0"
proof -
  have "(\<Sum>k\<leftarrow>ks. if i \<in> set (slice_cells T D lens k)
                   then memset_zero imps (surface_bins T lens) ! k else 0) = 0"
    if "\<forall>k\<in>set ks. k < surface_bins T lens" for ks
    using that by (induction ks) (simp_all add: memset_zero_def nth_append)
  from this [of "[0..<surface_bins T lens]"] show ?thesis
    by (simp add: removed_from_cell_def)
qed

lemma length_memset_zero: "n \<le> length (memset_zero xs n)"
  by (simp add: memset_zero_def)

lemma intercept_kept_step:
  "purify_surface_bin T D lens w M k (cur, retry, b) = Inr st' \<Longrightarrow>
   pInterceptOut (snd (snd st')) = pInterceptOut b"
  by (auto simp: purify_surface_bin_def Let_def split: sum.splits prod.splits)

lemma intercept_kept_loop:
  assumes "valid_shape T D lens"
    "purify_loop T D lens w M (surface_bins T lens) prev n b = Some (Inr e)"
  shows "pInterceptOut (exit_buffers e) = pInterceptOut b"
proof (rule purify_loop_invariant [OF assms(2), of "\<lambda>x. pInterceptOut x = pInterceptOut b"])
  show "pInterceptOut b = pInterceptOut b" ..
next
  fix b0 c r b'
  assume b0: "pInterceptOut b0 = pInterceptOut b"
    and "purify_pass T D lens w M (surface_bins T lens) b0 = Inr (c, r, b')"
  with purify_pass_invariant [OF assms(1), of "\<lambda>x. pInterceptOut x = pInterceptOut b" b0 w M]
    intercept_kept_step
  show "pInterceptOut b' = pInterceptOut b"
    by fastforce
qed


lemma example_2x2:
  "PurifyInternal 4 0 2 [2, 2] [1, 1, 1, 1]
     \<lparr>aScores = [1, 2, 3, 4], aImpurities = [9, 9, 9, 9], pInterceptOut = Some 0\<rparr> =
   Some (Inr (Error_None,
     \<lparr>aScores = [0, 0, 0, 0], aImpurities = [- 1, 1, - (1 / 2), 1 / 2],
      pInterceptOut = Some (5 / 2)\<rparr>))"
  apply (simp add: PurifyInternal_def PurifyInternal_run_def purify_setup_def totals_def
      extract_intercept_def memset_zero_def add_at_def upt_conv_Cons Let_def)
  apply (subst purify_loop.simps)
  apply (simp add: purify_pass_def purify_surface_bin_def decode_surface_bin_def
      slice_indexes_def slice_impurity_def add_at_def upt_conv_Cons Let_def)
  apply (subst purify_loop.simps)
  apply (simp add: purify_pass_def purify_surface_bin_def decode_surface_bin_def
      slice_indexes_def slice_impurity_def add_at_def upt_conv_Cons Let_def)
  done


text \<open>
  Claim C1. For a valid shape, buffers of the lengths of the contract and weights whose sum is
  not zero: when \<open>PurifyInternal\<close> returns, every original score is the final score, plus
  the intercept when the caller asked for one, plus the sum of the impurities recorded for the
  surface bins whose slice contains the cell. The intercept slot is written exactly when the
  caller passed one.
\<close>

theorem C1_conservation:
  assumes "valid_shape cTensorBins cDimensions aDimensionLengths"
    and "length aWeights = cTensorBins"
    and "length (aScores b) = cTensorBins"
    and "length (aImpurities b) = surface_bins cTensorBins aDimensionLengths"
    and "sum_list aWeights \<noteq> 0"
    and "PurifyInternal cTensorBins tolerance cDimensions aDimensionLengths aWeights b =
           Some (Inr (error, b'))"
    and "i < cTensorBins"
  shows "aScores b ! i =
           aScores b' ! i
           + (case pInterceptOut b' of None \<Rightarrow> 0 | Some intercept \<Rightarrow> intercept)
           + removed_from_cell cTensorBins cDimensions aDimensionLengths (aImpurities b') i
         \<and> (pInterceptOut b' = None \<longleftrightarrow> pInterceptOut b = None)"
proof -
  let ?T = cTensorBins and ?D = cDimensions and ?lens = aDimensionLengths and ?w = aWeights
  let ?S = "surface_bins ?T ?lens"
  let ?tot = "\<Sum>i\<leftarrow>[0..<?T]. aScores b ! i * ?w ! i"
  let ?M = "(\<Sum>i\<leftarrow>[0..<?T]. \<bar>aScores b ! i * ?w ! i\<bar>) * tolerance / sum_list ?w"
  let ?b0 = "extract_intercept ?T ?tot (sum_list ?w) b"
  let ?b1 = "?b0\<lparr>aImpurities := memset_zero (aImpurities ?b0) ?S\<rparr>"
  let ?icpt = "if pInterceptOut b \<noteq> None then ?tot / sum_list ?w else 0"
  note su = purify_setup_valid [OF assms(1,2,5), of tolerance b]
  from assms(6) obtain e where run: "purify_loop ?T ?D ?lens ?w ?M ?S None 0 ?b1 = Some (Inr e)"
    and e: "exit_buffers e = b'"
    by (auto simp: PurifyInternal_def PurifyInternal_run_def su
        split: option.splits sum.splits)
  have b0: "?b0 = (if pInterceptOut b \<noteq> None
      then b\<lparr>pInterceptOut := Some (?tot / sum_list ?w),
             aScores := map (\<lambda>s. s - ?tot / sum_list ?w) (aScores b)\<rparr>
      else b)"
    by (rule extract_intercept_eq [OF assms(3)])
  have "conserved ?T ?D ?lens (\<lambda>i. aScores b ! i - ?icpt) ?b1"
    unfolding conserved_def
    by (simp add: removed_from_cell_memset length_memset_zero b0 assms(3))
  from conserved_loop [OF assms(1) this run] e assms(7)
  have 1: "aScores b' ! i + removed_from_cell ?T ?D ?lens (aImpurities b') i
      = aScores b ! i - ?icpt"
    by (simp add: conserved_def)
  from intercept_kept_loop [OF assms(1) run] e
  have 2: "pInterceptOut b' = (if pInterceptOut b \<noteq> None then Some (?tot / sum_list ?w) else None)"
    by (simp add: b0)
  from 1 2 show ?thesis
    by (simp split: if_splits)
qed

theorem C1_conservation_witness:
  "valid_shape 4 2 [2, 2] \<and> length [1, 1, 1, 1 :: real] = 4
   \<and> length [9, 9, 9, 9 :: real] = surface_bins 4 [2, 2]
   \<and> sum_list [1, 1, 1, 1 :: real] \<noteq> 0
   \<and> PurifyInternal 4 0 2 [2, 2] [1, 1, 1, 1]
        \<lparr>aScores = [1, 2, 3, 4], aImpurities = [9, 9, 9, 9], pInterceptOut = Some 0\<rparr> =
      Some (Inr (Error_None,
        \<lparr>aScores = [0, 0, 0, 0], aImpurities = [- 1, 1, - (1 / 2), 1 / 2],
         pInterceptOut = Some (5 / 2)\<rparr>))
   \<and> (4 :: real) = 0 + 5 / 2 + removed_from_cell 4 2 [2, 2] [- 1, 1, - (1 / 2), 1 / 2] 3"
  using C1_conservation [of 4 2 "[2, 2]" "[1, 1, 1, 1]"
      "\<lparr>aScores = [1, 2, 3, 4], aImpurities = [9, 9, 9, 9], pInterceptOut = Some 0\<rparr>"
      0 Error_None
      "\<lparr>aScores = [0, 0, 0, 0], aImpurities = [- 1, 1, - (1 / 2), 1 / 2],
         pInterceptOut = Some (5 / 2)\<rparr>" 3]
    example_2x2
  by (simp add: valid_shape_def surface_bins_def)


text \<open>
  Claim C5. For a valid input with weights whose sum is not zero and a non-null
  \<open>pInterceptOut\<close>: before the first pass the slot holds the sum of \<open>score * weight\<close>
  over all cells divided by the sum of the weights, taken on the original scores, and that
  value has been subtracted from every score. The passes start from this state, no surface
  bin of a pass writes the slot, and the slot holds the same value when the function returns.
\<close>

theorem C5_intercept_extraction:
  assumes "valid_shape cTensorBins cDimensions aDimensionLengths"
    and "length aWeights = cTensorBins"
    and "length (aScores b) = cTensorBins"
    and "sum_list aWeights \<noteq> 0"
    and "pInterceptOut b \<noteq> None"
  shows "\<exists>impurityMax b1.
      purify_setup cTensorBins tolerance cDimensions aDimensionLengths aWeights b =
        Inr (Some (impurityMax, surface_bins cTensorBins aDimensionLengths, b1))
      \<and> pInterceptOut b1 =
          Some ((\<Sum>i\<leftarrow>[0..<cTensorBins]. aScores b ! i * aWeights ! i) / sum_list aWeights)
      \<and> aScores b1 =
          map (\<lambda>score. score
                 - (\<Sum>i\<leftarrow>[0..<cTensorBins]. aScores b ! i * aWeights ! i) / sum_list aWeights)
            (aScores b)
      \<and> PurifyInternal_run cTensorBins tolerance cDimensions aDimensionLengths aWeights b =
          purify_loop cTensorBins cDimensions aDimensionLengths aWeights impurityMax
            (surface_bins cTensorBins aDimensionLengths) None 0 b1
      \<and> (\<forall>k cur retry b2 st'.
            purify_surface_bin cTensorBins cDimensions aDimensionLengths aWeights impurityMax k
              (cur, retry, b2) = Inr st'
            \<longrightarrow> pInterceptOut (snd (snd st')) = pInterceptOut b2)
      \<and> (\<forall>error b'.
            PurifyInternal cTensorBins tolerance cDimensions aDimensionLengths aWeights b =
              Some (Inr (error, b'))
            \<longrightarrow> pInterceptOut b' =
              Some ((\<Sum>i\<leftarrow>[0..<cTensorBins]. aScores b ! i * aWeights ! i)
                      / sum_list aWeights))"
proof -
  let ?T = cTensorBins and ?D = cDimensions and ?lens = aDimensionLengths and ?w = aWeights
  let ?S = "surface_bins ?T ?lens"
  let ?tot = "\<Sum>i\<leftarrow>[0..<?T]. aScores b ! i * ?w ! i"
  let ?M = "(\<Sum>i\<leftarrow>[0..<?T]. \<bar>aScores b ! i * ?w ! i\<bar>) * tolerance / sum_list ?w"
  let ?b0 = "extract_intercept ?T ?tot (sum_list ?w) b"
  let ?b1 = "?b0\<lparr>aImpurities := memset_zero (aImpurities ?b0) ?S\<rparr>"
  note su = purify_setup_valid [OF assms(1,2,4), of tolerance b]
  have b0: "?b0 = b\<lparr>pInterceptOut := Some (?tot / sum_list ?w),
             aScores := map (\<lambda>s. s - ?tot / sum_list ?w) (aScores b)\<rparr>"
    using extract_intercept_eq [OF assms(3), of ?tot "sum_list ?w"] assms(5) by simp
  have run: "PurifyInternal_run ?T tolerance ?D ?lens ?w b = purify_loop ?T ?D ?lens ?w ?M ?S None 0 ?b1"
    by (simp add: PurifyInternal_run_def su)
  have kept: "pInterceptOut b' = Some (?tot / sum_list ?w)"
    if "PurifyInternal ?T tolerance ?D ?lens ?w b = Some (Inr (error, b'))" for error b'
  proof -
    from that run obtain e where "purify_loop ?T ?D ?lens ?w ?M ?S None 0 ?b1 = Some (Inr e)"
      and "exit_buffers e = b'"
      by (auto simp: PurifyInternal_def split: option.splits sum.splits)
    with intercept_kept_loop [OF assms(1), of ?w ?M None 0 ?b1 e] show ?thesis
      by (simp add: b0)
  qed
  show ?thesis
    apply (rule exI [of _ ?M])
    apply (rule exI [of _ ?b1])
    apply (intro conjI allI impI)
    subgoal by (rule su)
    subgoal by (simp add: b0)
    subgoal by (simp add: b0)
    subgoal by (rule run)
    subgoal by (rule intercept_kept_step)
    subgoal by (rule kept)
    done
qed


theorem C5_intercept_extraction_witness:
  "valid_shape 4 2 [2, 2] \<and> length [1, 1, 1, 1 :: real] = 4
   \<and> sum_list [1, 1, 1, 1 :: real] \<noteq> 0
   \<and> (\<exists>impurityMax b1.
      purify_setup 4 0 2 [2, 2] [1, 1, 1, 1]
        \<lparr>aScores = [1, 2, 3, 4], aImpurities = [9, 9, 9, 9], pInterceptOut = Some 0\<rparr> =
        Inr (Some (impurityMax, surface_bins 4 [2, 2], b1))
      \<and> pInterceptOut b1 = Some (5 / 2)
      \<and> aScores b1 = [- (3 / 2), - (1 / 2), 1 / 2, 3 / 2])"
proof -
  have "valid_shape 4 2 [2, 2]" by (simp add: valid_shape_def)
  from C5_intercept_extraction [OF this, of "[1, 1, 1, 1]"
      "\<lparr>aScores = [1, 2, 3, 4], aImpurities = [9, 9, 9, 9], pInterceptOut = Some 0\<rparr>" 0]
  obtain impurityMax b1 where
    "purify_setup 4 0 2 [2, 2] [1, 1, 1, 1]
        \<lparr>aScores = [1, 2, 3, 4], aImpurities = [9, 9, 9, 9], pInterceptOut = Some 0\<rparr> =
        Inr (Some (impurityMax, surface_bins 4 [2, 2], b1))"
    "pInterceptOut b1 = Some (5 / 2)"
    "aScores b1 = [- (3 / 2), - (1 / 2), 1 / 2, 3 / 2]"
    by (auto simp: upt_conv_Cons)
  then show ?thesis by (auto simp: valid_shape_def)
qed

section \<open>Every cell lies in one slice of each dimension\<close>

lemma find_sweep_at:
  "\<forall>x\<in>set pre. 0 < x \<and> T mod x = 0 \<Longrightarrow> 0 < c \<Longrightarrow> T mod c = 0 \<Longrightarrow> r < T div c \<Longrightarrow>
   find_sweep T (pre @ c # post) i inc ((\<Sum>x\<leftarrow>pre. T div x) + r) =
     Inr (i + length pre, c, inc * prod_list pre, r)"
proof (induction pre arbitrary: i inc)
  case Nil
  then show ?case by simp
next
  case (Cons x xs)
  then show ?case by (simp add: mult.assoc)
qed

lemma surface_bins_split:
  assumes "d < length lens"
  shows "surface_bins T lens =
     surface_bins T (take d lens) + T div (lens ! d) + surface_bins T (drop (Suc d) lens)"
proof -
  have "lens = take d lens @ lens ! d # drop (Suc d) lens"
    using assms by (rule id_take_nth_drop)
  then have "surface_bins T lens = surface_bins T (take d lens @ lens ! d # drop (Suc d) lens)"
    by simp
  then show ?thesis by (simp add: surface_bins_def)
qed

lemma slice_cells_at:
  assumes v: "valid_shape T D lens" and d: "d < D"
    and r: "r < prod_list (take d lens) * prod_list (drop (Suc d) lens)"
  shows "surface_bins T (take d lens) + r < surface_bins T lens"
    and "sweep_dimension T D lens (surface_bins T (take d lens) + r) = d"
    and "slice_cells T D lens (surface_bins T (take d lens) + r) =
         map (\<lambda>n. r mod prod_list (take d lens)
                   + prod_list (take d lens) * lens ! d * (r div prod_list (take d lens))
                   + n * prod_list (take d lens)) [0..<lens ! d]"
proof -
  let ?P = "prod_list (take d lens)" and ?Q = "prod_list (drop (Suc d) lens)" and ?c = "lens ! d"
  let ?k = "surface_bins T (take d lens) + r"
  from v d have dl: "d < length lens" and len: "length lens = D" by (simp_all add: valid_shape_def)
  note sp = shape_split [OF v d]
  have r': "r < T div ?c" using r sp(2) by simp
  show k: "?k < surface_bins T lens"
    using surface_bins_split [OF dl, of T] r' by simp
  have split: "lens = take d lens @ ?c # drop (Suc d) lens"
    using dl by (rule id_take_nth_drop)
  have mods: "\<forall>x\<in>set lens. 0 < x \<and> T mod x = 0" by (rule valid_shape_mod [OF v])
  then have "\<forall>x\<in>set (take d lens). 0 < x \<and> T mod x = 0"
    by (meson in_set_takeD)
  moreover have "0 < ?c" "T mod ?c = 0" using mods dl by simp_all
  ultimately have "find_sweep T (take d lens @ ?c # drop (Suc d) lens) 0 1 ?k
      = Inr (0 + length (take d lens), ?c, 1 * ?P, r)"
    unfolding surface_bins_def using r' by (intro find_sweep_at)
  with split dl have fs: "find_sweep T lens 0 1 ?k = Inr (d, ?c, ?P, r)"
    by simp
  have "r div ?P < ?Q"
    using r sp(3) by (simp add: less_mult_imp_div_less mult.commute)
  then have q: "(r div ?P) mod ?Q = r div ?P" "(r div ?P) div ?Q = 0" by simp_all
  have "tensor_offset (take d lens @ ?c # drop (Suc d) lens) 0 (length (take d lens)) r 0 1
      = (r mod ?P + ?P * ?c * (r div ?P), 0)"
    unfolding tensor_offset_sweep q ..
  with split dl have to: "tensor_offset lens 0 d r 0 1 = (r mod ?P + ?P * ?c * (r div ?P), 0)"
    by simp
  from fs to len
  have dec: "decode_surface_bin T D lens ?k = Inr (d, r mod ?P + ?P * ?c * (r div ?P), ?P, ?c)"
    by (simp add: decode_surface_bin_def)
  then show "sweep_dimension T D lens ?k = d"
    by (simp add: sweep_dimension_def)
  from dec show "slice_cells T D lens ?k =
         map (\<lambda>n. r mod ?P + ?P * ?c * (r div ?P) + n * ?P) [0..<?c]"
    by (simp add: slice_cells_def slice_indexes_def)
qed

lemma slice_member:
  assumes v: "valid_shape T D lens" and d: "d < D"
    and r: "r < prod_list (take d lens) * prod_list (drop (Suc d) lens)"
    and i: "i < T"
  shows "i \<in> set (slice_cells T D lens (surface_bins T (take d lens) + r))
     \<longleftrightarrow> cross_section (prod_list (take d lens)) (lens ! d) i = r"
proof -
  let ?P = "prod_list (take d lens)" and ?Q = "prod_list (drop (Suc d) lens)" and ?c = "lens ! d"
  note sp = shape_split [OF v d]
  note sc = slice_cells_at(3) [OF v d r]
  show ?thesis
  proof
    assume "i \<in> set (slice_cells T D lens (surface_bins T (take d lens) + r))"
    then obtain n where n: "n < ?c" and ieq: "i = r mod ?P + ?P * ?c * (r div ?P) + n * ?P"
      unfolding sc by auto
    have i1: "i = (r mod ?P + n * ?P) + (r div ?P) * (?P * ?c)"
      using ieq by (simp add: mult.commute)
    have "r mod ?P + n * ?P < Suc n * ?P" using sp(3) by simp
    also have "\<dots> \<le> ?c * ?P" using n by (intro mult_le_mono1) simp
    finally have small: "r mod ?P + n * ?P < ?P * ?c" by (simp add: mult.commute)
    have aux: "a < m \<Longrightarrow> (a + q * m) div m = q" for a q m :: nat
      by simp
    have "i div (?P * ?c) = r div ?P"
      unfolding i1 using small by (rule aux)
    moreover have "i mod ?P = r mod ?P"
      unfolding ieq by (simp add: mult.assoc)
    ultimately show "cross_section ?P ?c i = r"
      by (simp add: cross_section_def)
  next
    assume cs: "cross_section ?P ?c i = r"
    have rm: "r mod ?P = i mod ?P" using cs [symmetric] by (simp add: cross_section_def)
    have rd: "r div ?P = i div (?P * ?c)" using cs [symmetric] sp(3) by (simp add: cross_section_def)
    let ?n = "(i div ?P) mod ?c"
    have n: "?n < ?c" using sp(4) by simp
    have "i = i mod ?P + ?P * (i div ?P)" by simp
    also have "i div ?P = ?n + ?c * ((i div ?P) div ?c)" by simp
    also have "(i div ?P) div ?c = i div (?P * ?c)" by (simp add: div_mult2_eq)
    finally have "i = r mod ?P + ?P * ?c * (r div ?P) + ?n * ?P"
      unfolding rm rd by (simp add: algebra_simps)
    with n show "i \<in> set (slice_cells T D lens (surface_bins T (take d lens) + r))"
      unfolding sc by (auto intro!: image_eqI [where x = ?n])
  qed
qed

lemma cross_section_less:
  assumes v: "valid_shape T D lens" and d: "d < D" and i: "i < T"
  shows "cross_section (prod_list (take d lens)) (lens ! d) i
           < prod_list (take d lens) * prod_list (drop (Suc d) lens)"
proof -
  let ?P = "prod_list (take d lens)" and ?Q = "prod_list (drop (Suc d) lens)" and ?c = "lens ! d"
  note sp = shape_split [OF v d]
  have "i div (?P * ?c) < ?Q"
    using i sp(1) sp(3) sp(4) by (simp add: less_mult_imp_div_less mult.commute)
  then have "Suc (i div (?P * ?c)) \<le> ?Q" by simp
  then have "?P * Suc (i div (?P * ?c)) \<le> ?P * ?Q" by (rule mult_le_mono2)
  moreover have "i mod ?P < ?P" using sp(3) by simp
  ultimately show ?thesis by (simp add: cross_section_def)
qed

lemma sum_over_dimension:
  assumes v: "valid_shape T D lens" and d: "d < D"
  shows "(\<Sum>i\<leftarrow>[0..<T]. f i) =
     (\<Sum>r\<leftarrow>[0..<prod_list (take d lens) * prod_list (drop (Suc d) lens)].
        \<Sum>j\<leftarrow>slice_cells T D lens (surface_bins T (take d lens) + r). (f j :: real))"
proof -
  let ?P = "prod_list (take d lens)" and ?Q = "prod_list (drop (Suc d) lens)" and ?c = "lens ! d"
  let ?rho = "cross_section ?P ?c"
  let ?off = "surface_bins T (take d lens)"
  have "(\<Sum>r\<in>{0..<?P * ?Q}. \<Sum>i\<in>{i \<in> {0..<T}. ?rho i = r}. f i) = sum f {0..<T}"
    using cross_section_less [OF v d] by (intro sum.group) auto
  moreover have "(\<Sum>i\<in>{i \<in> {0..<T}. ?rho i = r}. f i) = (\<Sum>j\<leftarrow>slice_cells T D lens (?off + r). f j)"
    if r: "r \<in> {0..<?P * ?Q}" for r
  proof -
    from r have r': "r < ?P * ?Q" by simp
    have "{i \<in> {0..<T}. ?rho i = r} = set (slice_cells T D lens (?off + r))"
      using slice_member [OF v d r'] slice_cells_bound [OF v slice_cells_at(1) [OF v d r']]
      by auto
    then show ?thesis
      using slice_cells_distinct [OF v slice_cells_at(1) [OF v d r']]
      by (simp add: sum_list_distinct_conv_sum_set)
  qed
  ultimately show ?thesis
    by (simp add: interv_sum_list_conv_sum_set_nat)
qed

lemma sum_list_all_zero:
  "\<forall>x\<in>set xs. f x = (0::real) \<Longrightarrow> (\<Sum>x\<leftarrow>xs. f x) = 0"
  by (induction xs) simp_all

lemma slice_pure_sum:
  assumes "\<forall>x\<in>set w. 0 \<le> x" "\<forall>j\<in>set cells. j < length w"
    and "slice_impurity w s cells = 0"
  shows "(\<Sum>j\<leftarrow>cells. s ! j * w ! j) = 0"
proof (cases "(\<Sum>j\<leftarrow>cells. w ! j) = 0")
  case True
  have "\<forall>x\<in>set (map (\<lambda>j. w ! j) cells). 0 \<le> x" using assms(1,2) by auto
  with True have "\<forall>x\<in>set (map (\<lambda>j. w ! j) cells). x = 0"
    by (metis sum_list_nonneg_eq_0_iff)
  then show ?thesis by (intro sum_list_all_zero) simp
next
  case False
  with assms(3) show ?thesis by (simp add: slice_impurity_eq)
qed

lemma pure_total_zero:
  assumes v: "valid_shape T D lens" and w: "length w = T" and nn: "\<forall>x\<in>set w. 0 \<le> x"
    and pure: "\<forall>k<surface_bins T lens. slice_impurity w s (slice_cells T D lens k) = 0"
  shows "(\<Sum>i\<leftarrow>[0..<T]. s ! i * w ! i) = 0"
proof -
  from v have d: "0 < D" by (simp add: valid_shape_def)
  have "(\<Sum>j\<leftarrow>slice_cells T D lens (surface_bins T (take 0 lens) + r). s ! j * w ! j) = 0"
    if "r < prod_list (take 0 lens) * prod_list (drop (Suc 0) lens)" for r
  proof -
    note k = slice_cells_at(1) [OF v d that]
    show ?thesis
      using slice_pure_sum [OF nn, of "slice_cells T D lens (surface_bins T (take 0 lens) + r)" s]
        slice_cells_bound [OF v k] pure k w by simp
  qed
  then have "(\<Sum>r\<leftarrow>[0..<prod_list (take 0 lens) * prod_list (drop (Suc 0) lens)].
        \<Sum>j\<leftarrow>slice_cells T D lens (surface_bins T (take 0 lens) + r). s ! j * w ! j) = 0"
    by (intro sum_list_all_zero) simp
  then show ?thesis
    unfolding sum_over_dimension [OF v d, of "\<lambda>i. s ! i * w ! i"] .
qed

section \<open>A tensor of one dimension\<close>

lemma valid_shape_1d: "1 \<le> T \<Longrightarrow> valid_shape T 1 [T]"
  by (simp add: valid_shape_def)

lemma surface_bins_1d: "1 \<le> T \<Longrightarrow> surface_bins T [T] = 1"
  by (simp add: surface_bins_def)

lemma slice_cells_1d:
  assumes "1 \<le> T"
  shows "slice_cells T 1 [T] 0 = [0..<T]"
proof -
  from slice_cells_valid [OF valid_shape_1d [OF assms], of 0] surface_bins_1d [OF assms]
  obtain d r where "d < 1" "r < prod_list (take d [T]) * prod_list (drop (Suc d) [T])"
    "slice_cells T 1 [T] 0 =
         map (\<lambda>n. r mod prod_list (take d [T])
                   + prod_list (take d [T]) * [T] ! d * (r div prod_list (take d [T]))
                   + n * prod_list (take d [T])) [0..<[T] ! d]"
    by auto
  then show ?thesis by (simp add: map_idI)
qed

lemma slice_impurity_all:
  assumes "length w = T" "length s = T" "sum_list w \<noteq> 0"
  shows "slice_impurity w s [0..<T] = weighted_mean w s"
  using assms by (simp add: slice_impurity_eq weighted_mean_def sum_list_nth_upt)

lemma foldl_add_at_all:
  "length s = T \<Longrightarrow> foldl (add_at (- m)) s [0..<T] = map (\<lambda>x. x - m) s"
  by (intro nth_equalityI) (simp_all add: foldl_add_at_nth)

lemma weighted_mean_shift:
  assumes "length w = length s" "sum_list w \<noteq> 0"
  shows "weighted_mean w (map (\<lambda>x. x - m) s) = weighted_mean w s - m"
proof -
  have "(\<Sum>i\<leftarrow>[0..<length s]. map (\<lambda>x. x - m) s ! i * w ! i)
      = (\<Sum>i\<leftarrow>[0..<length s]. s ! i * w ! i - m * w ! i)"
    by (intro arg_cong [where f = sum_list] map_cong) (simp_all add: algebra_simps)
  also have "\<dots> = (\<Sum>i\<leftarrow>[0..<length s]. s ! i * w ! i) - m * (\<Sum>i\<leftarrow>[0..<length s]. w ! i)"
    by (simp add: sum_list_subtractf sum_list_const_mult)
  also have "(\<Sum>i\<leftarrow>[0..<length s]. w ! i) = sum_list w"
    using assms(1) by (simp add: sum_list_nth_upt)
  finally show ?thesis
    using assms(2) by (simp add: weighted_mean_def diff_divide_distrib)
qed

lemma purify_pass_1d:
  assumes "1 \<le> T" "length w = T" "length (aScores b) = T" "sum_list w \<noteq> 0"
  shows "purify_pass T 1 [T] w M 1 b =
     Inr (\<bar>weighted_mean w (aScores b)\<bar>, M < \<bar>weighted_mean w (aScores b)\<bar>,
          b\<lparr>aImpurities := add_at (weighted_mean w (aScores b)) (aImpurities b) 0,
            aScores := map (\<lambda>x. x - weighted_mean w (aScores b)) (aScores b)\<rparr>)"
proof -
  have k: "0 < surface_bins T [T]" by (simp add: surface_bins_1d [OF assms(1)])
  have "purify_pass T 1 [T] w M 1 b = purify_surface_bin T 1 [T] w M 0 (0, False, b)"
    by (simp add: purify_pass_def split: sum.splits)
  also note purify_surface_bin_valid [OF valid_shape_1d [OF assms(1)] k, of w M 0 False b]
  finally show ?thesis
    unfolding slice_cells_1d [OF assms(1)] slice_impurity_all [OF assms(2,3,4)]
      foldl_add_at_all [OF assms(3)]
    by simp
qed

lemma map_minus_zero: "map (\<lambda>x. x - (0::real)) xs = xs"
  by (induction xs) simp_all

lemma purify_loop_1d:
  assumes T: "1 \<le> T" and w: "length w = T" and s: "length (aScores b) = T"
    and W: "sum_list w \<noteq> 0" and M: "0 \<le> M"
  shows "\<exists>e. purify_loop T 1 [T] w M 1 None 0 b = Some (Inr e)
     \<and> exit_passes e \<le> 2
     \<and> (weighted_mean w (aScores b) = 0 \<longrightarrow> exit_passes e = 1)
     \<and> aScores (exit_buffers e) = map (\<lambda>x. x - weighted_mean w (aScores b)) (aScores b)
     \<and> pInterceptOut (exit_buffers e) = pInterceptOut b"
proof -
  let ?m = "weighted_mean w (aScores b)"
  let ?b2 = "b\<lparr>aImpurities := add_at ?m (aImpurities b) 0,
              aScores := map (\<lambda>x. x - ?m) (aScores b)\<rparr>"
  have p1: "purify_pass T 1 [T] w M 1 b = Inr (\<bar>?m\<bar>, M < \<bar>?m\<bar>, ?b2)"
    by (rule purify_pass_1d [OF T w s W])
  have s2: "length (aScores ?b2) = T" using s by simp
  have m2: "weighted_mean w (aScores ?b2) = 0"
    using weighted_mean_shift [of w "aScores b" ?m] w s W by simp
  let ?b3 = "?b2\<lparr>aImpurities := add_at 0 (aImpurities ?b2) 0,
              aScores := map (\<lambda>x. x - 0) (aScores ?b2)\<rparr>"
  have p2: "purify_pass T 1 [T] w M 1 ?b2 = Inr (0, False, ?b3)"
    using purify_pass_1d [OF T w s2 W, of M] M unfolding m2 by simp
  show ?thesis
  proof (cases "M < \<bar>?m\<bar>")
    case False
    have "purify_loop T 1 [T] w M 1 None 0 b =
        Some (Inr \<lparr>exit_buffers = ?b2, exit_passes = Suc 0, exit_by_guard = False\<rparr>)"
      using False
      apply (subst purify_loop.simps)
      apply (simp only: p1 sum.case prod.case option.case if_False if_True)
      done
    then show ?thesis by simp
  next
    case True
    with M have "\<not> \<bar>?m\<bar> \<le> 0" by linarith
    with True have "purify_loop T 1 [T] w M 1 None 0 b =
        Some (Inr \<lparr>exit_buffers = ?b3, exit_passes = Suc (Suc 0), exit_by_guard = False\<rparr>)"
      apply (subst purify_loop.simps)
      apply (simp only: p1 sum.case prod.case option.case if_False if_True)
      apply (subst purify_loop.simps)
      apply (simp only: p2 sum.case prod.case option.case if_False if_True)
      done
    with True M show ?thesis by (auto simp: map_minus_zero)
  qed
qed

lemma add_at_zero: "add_at 0 xs k = xs"
  by (simp add: add_at_def)

lemma foldl_add_at_zero: "foldl (add_at 0) xs is = xs"
  by (induction "is") (simp_all add: add_at_zero)

lemma impurityMax_nonneg:
  assumes "\<forall>x\<in>set w. 0 \<le> x" "0 \<le> tolerance"
  shows "0 \<le> (\<Sum>i\<leftarrow>[0..<T]. \<bar>s ! i * w ! i\<bar>) * tolerance / sum_list (w :: real list)"
proof -
  have "0 \<le> sum_list w" using assms(1) by (simp add: sum_list_nonneg)
  moreover have "0 \<le> (\<Sum>i\<leftarrow>[0..<T]. \<bar>s ! i * w ! i\<bar>)" by (intro sum_list_nonneg) auto
  ultimately show ?thesis using assms(2) by simp
qed


text \<open>
  Claim C8, as the code has it. For a tensor of a single dimension (\<open>cDimensions = 1\<close>),
  non-negative weights whose sum is not zero and a tolerance that is not negative,
  \<open>PurifyInternal\<close> returns, and every final score is the original score minus the weighted
  mean of the original scores. The number of passes is not part of the property: a first pass
  that measures a mean above \<open>impurityMax\<close> sets \<open>bRetry\<close>, and another pass follows.
\<close>

theorem C8_single_dimension:
  assumes T: "1 \<le> cTensorBins"
    and w: "length aWeights = cTensorBins"
    and s: "length (aScores b) = cTensorBins"
    and imp: "length (aImpurities b) = 1"
    and nn: "\<forall>x\<in>set aWeights. 0 \<le> x"
    and W: "sum_list aWeights \<noteq> 0"
    and tol: "0 \<le> tolerance"
  shows "\<exists>e. PurifyInternal_run cTensorBins tolerance 1 [cTensorBins] aWeights b = Some (Inr e)
     \<and> PurifyInternal cTensorBins tolerance 1 [cTensorBins] aWeights b =
         Some (Inr (Error_None, exit_buffers e))
     \<and> aScores (exit_buffers e) =
         map (\<lambda>score. score - weighted_mean aWeights (aScores b)) (aScores b)"
proof -
  let ?T = cTensorBins and ?w = aWeights
  let ?M = "(\<Sum>i\<leftarrow>[0..<?T]. \<bar>aScores b ! i * ?w ! i\<bar>) * tolerance / sum_list ?w"
  let ?mu = "weighted_mean ?w (aScores b)"
  define b1 where "b1 = (extract_intercept ?T (\<Sum>i\<leftarrow>[0..<?T]. aScores b ! i * ?w ! i) (sum_list ?w) b)
                  \<lparr>aImpurities := memset_zero
                     (aImpurities (extract_intercept ?T (\<Sum>i\<leftarrow>[0..<?T]. aScores b ! i * ?w ! i)
                         (sum_list ?w) b)) (surface_bins ?T [?T])\<rparr>"
  have v: "valid_shape ?T 1 [?T]" by (rule valid_shape_1d [OF T])
  have M: "0 \<le> ?M" by (rule impurityMax_nonneg [OF nn tol])
  have su: "purify_setup ?T tolerance 1 [?T] ?w b = Inr (Some (?M, 1, b1))"
    unfolding purify_setup_valid [OF v w W] b1_def surface_bins_1d [OF T] ..
  have mu: "(\<Sum>i\<leftarrow>[0..<?T]. aScores b ! i * ?w ! i) / sum_list ?w = ?mu"
    by (simp add: weighted_mean_def s)
  have sb1: "aScores b1 = (if pInterceptOut b \<noteq> None then map (\<lambda>x. x - ?mu) (aScores b)
                            else aScores b)"
    unfolding b1_def extract_intercept_eq [OF s] mu by simp_all
  have len1: "length (aScores b1) = ?T" using s by (simp add: sb1)
  have m1: "weighted_mean ?w (aScores b1) = (if pInterceptOut b \<noteq> None then 0 else ?mu)"
  proof (cases "pInterceptOut b \<noteq> None")
    case True
    then have "weighted_mean ?w (aScores b1) = weighted_mean ?w (map (\<lambda>x. x - ?mu) (aScores b))"
      by (simp add: sb1)
    also have "\<dots> = ?mu - ?mu"
      by (rule weighted_mean_shift) (simp_all add: w s W)
    finally show ?thesis using True by simp
  next
    case False
    then show ?thesis by (simp add: sb1)
  qed
  from purify_loop_1d [OF T w len1 W M]
  obtain e where e: "purify_loop ?T 1 [?T] ?w ?M 1 None 0 b1 = Some (Inr e)"
    "aScores (exit_buffers e) = map (\<lambda>x. x - weighted_mean ?w (aScores b1)) (aScores b1)"
    by blast
  have run: "PurifyInternal_run ?T tolerance 1 [?T] ?w b = Some (Inr e)"
    unfolding PurifyInternal_run_def su by (simp only: sum.case option.case prod.case e(1))
  have "aScores (exit_buffers e) =
      map (\<lambda>x. x - (if pInterceptOut b \<noteq> None then 0 else ?mu)) (aScores b1)"
    unfolding e(2) m1 ..
  then have "aScores (exit_buffers e) = map (\<lambda>x. x - ?mu) (aScores b)"
    by (cases "pInterceptOut b \<noteq> None") (simp_all add: sb1 map_minus_zero)
  with run show ?thesis
    by (intro exI [of _ e]) (simp add: PurifyInternal_def)
qed


theorem C8_single_dimension_witness:
  "(1::nat) \<le> 2 \<and> list_all (\<lambda>x. 0 \<le> x) [1, 3 :: real] \<and> sum_list [1, 3 :: real] \<noteq> 0
   \<and> weighted_mean [1, 3] [2, 6] = 5
   \<and> (\<exists>e. PurifyInternal_run 2 0 1 [2] [1, 3]
              \<lparr>aScores = [2, 6], aImpurities = [9], pInterceptOut = None\<rparr> = Some (Inr e)
          \<and> aScores (exit_buffers e) = [- 3, 1])
   \<and> (\<exists>e. PurifyInternal_run 2 0 1 [2] [1, 3]
              \<lparr>aScores = [2, 6], aImpurities = [9], pInterceptOut = Some 0\<rparr> = Some (Inr e)
          \<and> aScores (exit_buffers e) = [- 3, 1])"
  using C8_single_dimension [of 2 "[1, 3]"
      "\<lparr>aScores = [2, 6], aImpurities = [9], pInterceptOut = None\<rparr>" 0]
    C8_single_dimension [of 2 "[1, 3]"
      "\<lparr>aScores = [2, 6], aImpurities = [9], pInterceptOut = Some 0\<rparr>" 0]
  by (auto simp: weighted_mean_def upt_conv_Cons)


text \<open>
  Claim C8, as the specification states it, fails in both of its parts. A second dimension of
  extent 1 is swept like any other: for extents \<open>[2, 1]\<close>, weights \<open>[1, 1]\<close>, scores
  \<open>[1, 3]\<close> and tolerance 1, each slice of the second dimension is a single cell, whose
  weighted mean is the cell itself, and the final scores are \<open>[0, 0]\<close>, while score minus
  weighted mean is \<open>[-1, 1]\<close>. And a single dimension can take more than one pass: for
  extents \<open>[2]\<close>, the same weights and scores, tolerance 0 and no intercept, the first pass
  measures the mean 2, above \<open>impurityMax = 0\<close>, so \<open>bRetry\<close> is set and a second pass
  runs before the loop is left.
\<close>

theorem C8_extent_one_counterexample:
  "valid_shape 2 2 [2, 1]
   \<and> PurifyInternal 2 1 2 [2, 1] [1, 1]
        \<lparr>aScores = [1, 3], aImpurities = [0, 0, 0], pInterceptOut = None\<rparr>
       = Some (Inr (Error_None,
           \<lparr>aScores = [0, 0], aImpurities = [2, - 1, 1], pInterceptOut = None\<rparr>))
   \<and> map (\<lambda>score. score - weighted_mean [1, 1] [1, 3]) [1, 3] = [- 1, 1]
   \<and> [0, 0] \<noteq> [- 1, 1 :: real]
   \<and> valid_shape 2 1 [2]
   \<and> PurifyInternal_run 2 0 1 [2] [1, 1]
        \<lparr>aScores = [1, 3], aImpurities = [0], pInterceptOut = None\<rparr>
       = Some (Inr \<lparr>exit_buffers =
            \<lparr>aScores = [- 1, 1], aImpurities = [2], pInterceptOut = None\<rparr>,
           exit_passes = 2, exit_by_guard = False\<rparr>)"
proof -
  have one: "PurifyInternal 2 1 2 [2, 1] [1, 1]
        \<lparr>aScores = [1, 3], aImpurities = [0, 0, 0], pInterceptOut = None\<rparr>
       = Some (Inr (Error_None,
           \<lparr>aScores = [0, 0], aImpurities = [2, - 1, 1], pInterceptOut = None\<rparr>))"
    apply (simp add: PurifyInternal_def PurifyInternal_run_def purify_setup_def
        totals_def extract_intercept_def memset_zero_def add_at_def upt_conv_Cons Let_def)
    apply (subst purify_loop.simps)
    apply (simp add: purify_pass_def purify_surface_bin_def decode_surface_bin_def
        slice_indexes_def slice_impurity_def add_at_def upt_conv_Cons Let_def)
    done
  have two: "PurifyInternal_run 2 0 1 [2] [1, 1]
        \<lparr>aScores = [1, 3], aImpurities = [0], pInterceptOut = None\<rparr>
       = Some (Inr \<lparr>exit_buffers =
            \<lparr>aScores = [- 1, 1], aImpurities = [2], pInterceptOut = None\<rparr>,
           exit_passes = 2, exit_by_guard = False\<rparr>)"
    apply (simp add: PurifyInternal_run_def purify_setup_def
        totals_def extract_intercept_def memset_zero_def add_at_def upt_conv_Cons Let_def)
    apply (subst purify_loop.simps)
    apply (simp add: purify_pass_def purify_surface_bin_def decode_surface_bin_def
        slice_indexes_def slice_impurity_def add_at_def upt_conv_Cons Let_def)
    apply (subst purify_loop.simps)
    apply (simp add: purify_pass_def purify_surface_bin_def decode_surface_bin_def
        slice_indexes_def slice_impurity_def add_at_def upt_conv_Cons Let_def)
    done
  from one two show ?thesis
    by (simp add: valid_shape_def weighted_mean_def upt_conv_Cons)
qed

section \<open>Input that is already pure\<close>

text \<open>
  Claim C7, as the code has it. For a valid input with non-negative weights whose sum is not
  zero and a tolerance that is not negative, in which the weighted mean of every slice, as
  line 136 computes it, is exactly zero: \<open>PurifyInternal\<close> makes exactly one pass and leaves
  by the loop condition, the scores are unchanged, every impurity is zero, and the intercept,
  when requested, is zero.
\<close>

theorem C7_pure_input_single_pass:
  assumes v: "valid_shape cTensorBins cDimensions aDimensionLengths"
    and w: "length aWeights = cTensorBins"
    and s: "length (aScores b) = cTensorBins"
    and imp: "length (aImpurities b) = surface_bins cTensorBins aDimensionLengths"
    and nn: "\<forall>x\<in>set aWeights. 0 \<le> x"
    and W: "sum_list aWeights \<noteq> 0"
    and tol: "0 \<le> tolerance"
    and pure: "\<forall>k<surface_bins cTensorBins aDimensionLengths.
         slice_impurity aWeights (aScores b)
           (slice_cells cTensorBins cDimensions aDimensionLengths k) = 0"
  shows "\<exists>e. PurifyInternal_run cTensorBins tolerance cDimensions aDimensionLengths aWeights b
               = Some (Inr e)
     \<and> exit_passes e = 1 \<and> \<not> exit_by_guard e
     \<and> aScores (exit_buffers e) = aScores b
     \<and> aImpurities (exit_buffers e) = replicate (surface_bins cTensorBins aDimensionLengths) 0
     \<and> (pInterceptOut b \<noteq> None \<longrightarrow> pInterceptOut (exit_buffers e) = Some 0)
     \<and> (pInterceptOut b = None \<longrightarrow> pInterceptOut (exit_buffers e) = None)"
proof -
  let ?T = cTensorBins and ?D = cDimensions and ?lens = aDimensionLengths and ?w = aWeights
  let ?S = "surface_bins ?T ?lens"
  let ?M = "(\<Sum>i\<leftarrow>[0..<?T]. \<bar>aScores b ! i * ?w ! i\<bar>) * tolerance / sum_list ?w"
  define b1 where "b1 = b\<lparr>pInterceptOut := (if pInterceptOut b \<noteq> None then Some 0 else None),
               aImpurities := replicate ?S 0\<rparr>"
  have tot: "(\<Sum>i\<leftarrow>[0..<?T]. aScores b ! i * ?w ! i) = 0"
    by (rule pure_total_zero [OF v w nn pure])
  have M: "0 \<le> ?M" by (rule impurityMax_nonneg [OF nn tol])
  have b0: "extract_intercept ?T 0 (sum_list ?w) b =
      b\<lparr>pInterceptOut := (if pInterceptOut b \<noteq> None then Some 0 else None)\<rparr>"
    unfolding extract_intercept_eq [OF s] by (simp add: map_minus_zero)
  have su: "purify_setup ?T tolerance ?D ?lens ?w b = Inr (Some (?M, ?S, b1))"
    unfolding purify_setup_valid [OF v w W] tot b0 b1_def using imp
    by (simp add: memset_zero_def)
  have sb1: "aScores b1 = aScores b" by (simp add: b1_def)
  have "\<exists>st'. purify_bins ?T ?D ?lens ?w ?M [0..<?S] (0, False, b1) = Inr st'
          \<and> st' = (0, False, b1)"
  proof (rule purify_bins_invariant [OF v])
    show "\<forall>k\<in>set [0..<?S]. k < ?S" by simp
    show "(0::real, False, b1) = (0, False, b1)" ..
  next
    fix k st st'
    assume k: "k \<in> set [0..<?S]" and st: "st = (0, False, b1)"
      and step: "purify_surface_bin ?T ?D ?lens ?w ?M k st = Inr st'"
    from k have k': "k < ?S" by simp
    have m: "slice_impurity ?w (aScores b1) (slice_cells ?T ?D ?lens k) = 0"
      using pure k' by (simp add: sb1)
    from step show "st' = (0, False, b1)"
      unfolding st purify_surface_bin_valid [OF v k'] m
      using M by (simp add: add_at_zero foldl_add_at_zero)
  qed
  then have pass: "purify_pass ?T ?D ?lens ?w ?M ?S b1 = Inr (0, False, b1)"
    unfolding purify_pass_def by blast
  have "purify_loop ?T ?D ?lens ?w ?M ?S None 0 b1 =
      Some (Inr \<lparr>exit_buffers = b1, exit_passes = Suc 0, exit_by_guard = False\<rparr>)"
    apply (subst purify_loop.simps)
    apply (simp only: pass sum.case prod.case option.case if_False if_True)
    done
  then have "PurifyInternal_run ?T tolerance ?D ?lens ?w b =
      Some (Inr \<lparr>exit_buffers = b1, exit_passes = Suc 0, exit_by_guard = False\<rparr>)"
    by (simp add: PurifyInternal_run_def su)
  then show ?thesis by (simp add: b1_def)
qed

theorem C7_pure_input_witness:
  "valid_shape 4 2 [2, 2] \<and> list_all (\<lambda>x. 0 \<le> x) [1, 1, 1, 1 :: real]
   \<and> sum_list [1, 1, 1, 1 :: real] \<noteq> 0
   \<and> list_all (\<lambda>k. slice_impurity [1, 1, 1, 1] [1, - 1, - 1, 1]
                      (slice_cells 4 2 [2, 2] k) = 0) [0..<surface_bins 4 [2, 2]]
   \<and> (\<exists>e. PurifyInternal_run 4 0 2 [2, 2] [1, 1, 1, 1]
              \<lparr>aScores = [1, - 1, - 1, 1], aImpurities = [9, 9, 9, 9],
               pInterceptOut = Some 7\<rparr> = Some (Inr e)
          \<and> exit_passes e = 1
          \<and> aScores (exit_buffers e) = [1, - 1, - 1, 1]
          \<and> aImpurities (exit_buffers e) = [0, 0, 0, 0]
          \<and> pInterceptOut (exit_buffers e) = Some 0)"
proof -
  have v: "valid_shape 4 2 [2, 2]" by (simp add: valid_shape_def)
  have S: "surface_bins 4 [2, 2] = 4" by (simp add: surface_bins_def)
  have "slice_impurity [1, 1, 1, 1] [1, - 1, - 1, 1] (slice_cells 4 2 [2, 2] k) = 0"
    if "k < 4" for k
  proof -
    from that consider "k = 0" | "k = 1" | "k = 2" | "k = 3" by linarith
    then show ?thesis
      by cases
        (simp_all add: slice_cells_def decode_surface_bin_def slice_indexes_def
          slice_impurity_def upt_conv_Cons)
  qed
  then have pure: "\<forall>k<surface_bins 4 [2, 2].
         slice_impurity [1, 1, 1, 1] [1, - 1, - 1, 1] (slice_cells 4 2 [2, 2] k) = 0"
    unfolding S by blast
  have r4: "replicate 4 (0::real) = [0, 0, 0, 0]" by (simp add: numeral_eq_Suc)
  have "\<exists>e. PurifyInternal_run 4 0 2 [2, 2] [1, 1, 1, 1]
              \<lparr>aScores = [1, - 1, - 1, 1], aImpurities = [9, 9, 9, 9],
               pInterceptOut = Some 7\<rparr> = Some (Inr e)
          \<and> exit_passes e = 1 \<and> \<not> exit_by_guard e
          \<and> aScores (exit_buffers e) = [1, - 1, - 1, 1]
          \<and> aImpurities (exit_buffers e) = replicate 4 0
          \<and> pInterceptOut (exit_buffers e) = Some 0"
    using C7_pure_input_single_pass [of 4 2 "[2, 2]" "[1, 1, 1, 1]"
      "\<lparr>aScores = [1, - 1, - 1, 1], aImpurities = [9, 9, 9, 9], pInterceptOut = Some 7\<rparr>" 0]
      v pure
    by (simp add: S)
  then show ?thesis
    unfolding r4 list_all_iff using v pure by auto
qed


text \<open>
  Claim C7, as the specification states it, fails: a slice whose weighted mean is within
  \<open>impurityMax\<close> but not zero is still purified. For one dimension of extent 2, weights
  \<open>[1, 1]\<close>, scores \<open>[1, 0]\<close> and tolerance 1, \<open>impurityMax\<close> is \<open>1/2\<close>, the only slice
  has weighted mean \<open>1/2\<close>, and the scores become \<open>[1/2, -1/2]\<close>.
\<close>

theorem C7_within_tolerance_counterexample:
  "valid_shape 2 1 [2]
   \<and> purify_setup 2 1 1 [2] [1, 1] \<lparr>aScores = [1, 0], aImpurities = [0], pInterceptOut = None\<rparr>
       = Inr (Some (1 / 2, 1, \<lparr>aScores = [1, 0], aImpurities = [0], pInterceptOut = None\<rparr>))
   \<and> slice_cells 2 1 [2] 0 = [0, 1]
   \<and> \<bar>slice_impurity [1, 1] [1, 0] [0, 1]\<bar> \<le> 1 / 2
   \<and> PurifyInternal 2 1 1 [2] [1, 1] \<lparr>aScores = [1, 0], aImpurities = [0], pInterceptOut = None\<rparr>
       = Some (Inr (Error_None,
           \<lparr>aScores = [1 / 2, - (1 / 2)], aImpurities = [1 / 2], pInterceptOut = None\<rparr>))
   \<and> [1 / 2, - (1 / 2)] \<noteq> [1, 0 :: real]"
  apply (simp add: valid_shape_def PurifyInternal_def PurifyInternal_run_def purify_setup_def
      totals_def extract_intercept_def memset_zero_def add_at_def upt_conv_Cons Let_def
      slice_cells_def decode_surface_bin_def slice_indexes_def slice_impurity_def)
  apply (subst purify_loop.simps)
  apply (simp add: purify_pass_def purify_surface_bin_def decode_surface_bin_def
      slice_indexes_def slice_impurity_def add_at_def upt_conv_Cons Let_def)
  done

section \<open>The slice means when the loop is left\<close>





















section \<open>The stopping rule, and the loop in exact arithmetic\<close>

text \<open>
  Claim C3 is about the termination of the passes. The stopping rule of lines 150--155, read
  off the loop: after a pass the loop goes on exactly when the pass total is strictly below
  the previous one (always, for the first pass) and some slice exceeded \<open>impurityMax\<close>.
\<close>

lemma purify_loop_after_pass:
  assumes "purify_pass T D lens w M S b = Inr (impurityCur, bRetry, b')"
  shows "purify_loop T D lens w M S impurityPrev n b =
     (if (\<forall>prev. impurityPrev = Some prev \<longrightarrow> impurityCur < prev) \<and> bRetry
      then purify_loop T D lens w M S (Some impurityCur) (Suc n) b'
      else Some (Inr \<lparr>exit_buffers = b', exit_passes = Suc n,
                      exit_by_guard = (\<exists>prev. impurityPrev = Some prev \<and> prev \<le> impurityCur)\<rparr>))"
  by (subst purify_loop.simps) (auto simp: assms split: option.splits)

text \<open>
  With a positive \<open>impurityMax\<close> the passes end, also over the reals: a pass that sets
  \<open>bRetry\<close> lowers the energy by at least \<open>impurityMax\<^sup>2\<close> times the least positive weight,
  and the energy is never negative.
\<close>

lemma energy_nonneg: "\<forall>x\<in>set w. 0 \<le> x \<Longrightarrow> length w = length s \<Longrightarrow> 0 \<le> energy w s"
  unfolding energy_def by (intro sum_list_nonneg) auto

lemma energy_step:
  assumes dist: "distinct cells" and inr: "\<forall>j\<in>set cells. j < length s"
  shows "energy w (foldl (add_at (- m)) s cells) =
     energy w s + m\<^sup>2 * (\<Sum>j\<leftarrow>cells. w ! j) - 2 * m * (\<Sum>j\<leftarrow>cells. s ! j * w ! j)"
proof -
  let ?T = "length s"
  let ?g = "\<lambda>j. w ! j * (m\<^sup>2 - 2 * m * s ! j)"
  have "energy w (foldl (add_at (- m)) s cells)
      = (\<Sum>i\<in>{0..<?T}. w ! i * (s ! i)\<^sup>2 + (if i \<in> set cells then ?g i else 0))"
    unfolding energy_def interv_sum_list_conv_sum_set_nat
    by (intro sum.cong) (auto simp: foldl_add_at_nth [OF dist inr] power2_eq_square algebra_simps)
  also have "\<dots> = energy w s + (\<Sum>i\<in>{0..<?T}. if i \<in> set cells then ?g i else 0)"
    unfolding energy_def interv_sum_list_conv_sum_set_nat by (simp add: sum.distrib)
  also have "(\<Sum>i\<in>{0..<?T}. if i \<in> set cells then ?g i else 0) = sum ?g ({0..<?T} \<inter> set cells)"
    by (simp add: sum.inter_restrict)
  also have "{0..<?T} \<inter> set cells = set cells" using inr by auto
  also have "sum ?g (set cells) = (\<Sum>j\<leftarrow>cells. ?g j)"
    using dist by (simp add: sum_list_distinct_conv_sum_set)
  also have "\<dots> = (\<Sum>j\<leftarrow>cells. m\<^sup>2 * w ! j - (2 * m) * (s ! j * w ! j))"
    by (intro arg_cong [where f = sum_list] map_cong refl) (simp add: algebra_simps)
  also have "\<dots> = (\<Sum>j\<leftarrow>cells. m\<^sup>2 * w ! j) - (\<Sum>j\<leftarrow>cells. (2 * m) * (s ! j * w ! j))"
    by (simp only: sum_list_subtractf)
  also have "\<dots> = m\<^sup>2 * (\<Sum>j\<leftarrow>cells. w ! j) - 2 * m * (\<Sum>j\<leftarrow>cells. s ! j * w ! j)"
    by (simp only: sum_list_const_mult)
  finally show ?thesis by simp
qed

lemma energy_step_impurity:
  assumes dist: "distinct cells" and inr: "\<forall>j\<in>set cells. j < length s"
  shows "energy w (foldl (add_at (- slice_impurity w s cells)) s cells) =
     energy w s - (slice_impurity w s cells)\<^sup>2 * (\<Sum>j\<leftarrow>cells. w ! j)"
proof (cases "(\<Sum>j\<leftarrow>cells. w ! j) = 0")
  case True
  then show ?thesis
    unfolding energy_step [OF dist inr] by (simp add: slice_impurity_eq)
next
  case False
  then show ?thesis
    unfolding energy_step [OF dist inr]
    by (simp add: slice_impurity_eq power2_eq_square field_simps)
qed

lemma member_le_sum_list_real:
  "\<forall>x\<in>set xs. (0::real) \<le> x \<Longrightarrow> y \<in> set xs \<Longrightarrow> y \<le> sum_list xs"
proof (induction xs)
  case Nil
  then show ?case by simp
next
  case (Cons x xs)
  then have "0 \<le> sum_list xs" by (intro sum_list_nonneg) simp
  with Cons show ?case by auto
qed

lemma slice_weight_lower:
  assumes nn: "\<forall>x\<in>set w. (0::real) \<le> x" and low: "\<forall>x\<in>set w. x = 0 \<or> \<omega> \<le> x"
    and inr: "\<forall>j\<in>set cells. j < length w" and ne: "(\<Sum>j\<leftarrow>cells. w ! j) \<noteq> 0"
  shows "\<omega> \<le> (\<Sum>j\<leftarrow>cells. w ! j)"
proof -
  from ne obtain j where j: "j \<in> set cells" "w ! j \<noteq> 0"
    using sum_list_all_zero [of cells "\<lambda>j. w ! j"] by blast
  with low inr have "\<omega> \<le> w ! j" by (metis nth_mem)
  also have "w ! j \<le> sum_list (map (\<lambda>j. w ! j) cells)"
    using nn inr j(1) by (intro member_le_sum_list_real) auto
  finally show ?thesis .
qed

lemma purify_bins_energy:
  assumes v: "valid_shape T D lens" and w: "length w = T" and nn: "\<forall>x\<in>set w. 0 \<le> x"
    and M: "0 \<le> M" and low: "\<forall>x\<in>set w. x = 0 \<or> \<omega> \<le> x" and pos: "0 \<le> \<omega>"
  shows "\<forall>k\<in>set ks. k < surface_bins T lens \<Longrightarrow> length (aScores b) = T \<Longrightarrow>
     purify_bins T D lens w M ks (cur, retry, b) = Inr (cur', retry', b') \<Longrightarrow>
     length (aScores b') = T
     \<and> energy w (aScores b') \<le> energy w (aScores b)
     \<and> (retry' \<longrightarrow> retry \<or> energy w (aScores b') \<le> energy w (aScores b) - M\<^sup>2 * \<omega>)"
proof (induction ks arbitrary: cur retry b)
  case Nil
  then show ?case by simp
next
  case (Cons k ks)
  let ?cells = "slice_cells T D lens k"
  let ?m = "slice_impurity w (aScores b) ?cells"
  let ?W = "\<Sum>j\<leftarrow>?cells. w ! j"
  let ?b1 = "b\<lparr>aImpurities := add_at ?m (aImpurities b) k,
              aScores := foldl (add_at (- ?m)) (aScores b) ?cells\<rparr>"
  from Cons.prems(1) have k: "k < surface_bins T lens" and ks: "\<forall>k\<in>set ks. k < surface_bins T lens"
    by simp_all
  note step = purify_surface_bin_valid [OF v k, of w M cur retry b]
  from Cons.prems(3) have rest: "purify_bins T D lens w M ks
      (cur + \<bar>?m\<bar>, retry \<or> M < \<bar>?m\<bar>, ?b1) = Inr (cur', retry', b')"
    by (simp add: step)
  have len1: "length (aScores ?b1) = T" using Cons.prems(2) by simp
  from Cons.IH [OF ks len1 rest]
  have ih: "length (aScores b') = T" "energy w (aScores b') \<le> energy w (aScores ?b1)"
    "retry' \<longrightarrow> (retry \<or> M < \<bar>?m\<bar>) \<or> energy w (aScores b') \<le> energy w (aScores ?b1) - M\<^sup>2 * \<omega>"
    by simp_all
  have inT: "\<forall>j\<in>set ?cells. j < T" using slice_cells_bound [OF v k] by blast
  then have inr: "\<forall>j\<in>set ?cells. j < length (aScores b)" and inw: "\<forall>j\<in>set ?cells. j < length w"
    using Cons.prems(2) w by simp_all
  have e1: "energy w (aScores ?b1) = energy w (aScores b) - ?m\<^sup>2 * ?W"
    using energy_step_impurity [OF slice_cells_distinct [OF v k] inr, of w] by simp
  have Wnn: "0 \<le> ?W" using nn inw by (intro sum_list_nonneg) auto
  then have le1: "energy w (aScores ?b1) \<le> energy w (aScores b)"
    unfolding e1 by simp
  have big: "energy w (aScores ?b1) \<le> energy w (aScores b) - M\<^sup>2 * \<omega>" if "M < \<bar>?m\<bar>"
  proof -
    from that M have "?m \<noteq> 0" by auto
    then have "?W \<noteq> 0" by (auto simp: slice_impurity_eq)
    from slice_weight_lower [OF nn low inw this] have W: "\<omega> \<le> ?W" .
    from that M have "M\<^sup>2 \<le> ?m\<^sup>2"
      by (metis abs_ge_zero less_imp_le power2_abs power_mono)
    with W Wnn pos have "M\<^sup>2 * \<omega> \<le> ?m\<^sup>2 * ?W"
      by (intro mult_mono) simp_all
    then show ?thesis unfolding e1 by simp
  qed
  show ?case
  proof (intro conjI impI)
    show "length (aScores b') = T" by (rule ih(1))
    show "energy w (aScores b') \<le> energy w (aScores b)" using ih(2) le1 by simp
    assume "retry'"
    with ih(3) consider "retry" | "M < \<bar>?m\<bar>"
      | "energy w (aScores b') \<le> energy w (aScores ?b1) - M\<^sup>2 * \<omega>"
      by blast
    then show "retry \<or> energy w (aScores b') \<le> energy w (aScores b) - M\<^sup>2 * \<omega>"
    proof cases
      case 1
      then show ?thesis by simp
    next
      case 2
      from big [OF this] ih(2) show ?thesis by simp
    next
      case 3
      with le1 show ?thesis by simp
    qed
  qed
qed

lemma least_positive_weight:
  "\<forall>x\<in>set w. (0::real) \<le> x \<Longrightarrow> \<exists>\<omega>>0. \<forall>x\<in>set w. x = 0 \<or> \<omega> \<le> x"
proof (induction w)
  case Nil
  show ?case by (intro exI [of _ 1]) simp
next
  case (Cons x xs)
  then obtain \<omega> where \<omega>: "0 < \<omega>" "\<forall>x\<in>set xs. x = 0 \<or> \<omega> \<le> x" by auto
  show ?case
  proof (cases "x = 0")
    case True
    with \<omega> show ?thesis by (intro exI [of _ \<omega>]) simp
  next
    case False
    with Cons.prems have "0 < x" by simp
    with \<omega> show ?thesis by (intro exI [of _ "min x \<omega>"]) auto
  qed
qed

lemma purify_loop_returns:
  assumes v: "valid_shape T D lens" and w: "length w = T" and nn: "\<forall>x\<in>set w. 0 \<le> x"
    and M: "0 < M" and low: "\<forall>x\<in>set w. x = 0 \<or> \<omega> \<le> x" and pos: "0 < \<omega>"
  shows "length (aScores b) = T \<Longrightarrow> energy w (aScores b) \<le> real N * (M\<^sup>2 * \<omega>) \<Longrightarrow>
     \<exists>e. purify_loop T D lens w M (surface_bins T lens) prev n b = Some (Inr e)
        \<and> exit_passes e \<le> n + N + 1"
proof (induction N arbitrary: b prev n)
  case 0
  note prems = 0
  have "\<exists>cur retry b'. purify_pass T D lens w M (surface_bins T lens) b = Inr (cur, retry, b')
      \<and> True"
    by (rule purify_pass_invariant [OF v]) simp_all
  then obtain cur retry b' where
    pass: "purify_pass T D lens w M (surface_bins T lens) b = Inr (cur, retry, b')"
    by blast
  from pass purify_bins_energy [OF v w nn less_imp_le [OF M] low less_imp_le [OF pos],
      of "[0..<surface_bins T lens]" b 0 False cur retry b'] prems(1)
  have en: "length (aScores b') = T"
    "retry \<longrightarrow> energy w (aScores b') \<le> energy w (aScores b) - M\<^sup>2 * \<omega>"
    by (simp_all add: purify_pass_def)
  have "0 \<le> energy w (aScores b')" using energy_nonneg [OF nn] w en(1) by simp
  moreover have "0 < M\<^sup>2 * \<omega>" using M pos by simp
  ultimately have "\<not> retry" using en(2) prems(2) by auto
  then show ?case
    unfolding purify_loop_after_pass [OF pass] by simp
next
  case (Suc N)
  have "\<exists>cur retry b'. purify_pass T D lens w M (surface_bins T lens) b = Inr (cur, retry, b')
      \<and> True"
    by (rule purify_pass_invariant [OF v]) simp_all
  then obtain cur retry b' where
    pass: "purify_pass T D lens w M (surface_bins T lens) b = Inr (cur, retry, b')"
    by blast
  from pass purify_bins_energy [OF v w nn less_imp_le [OF M] low less_imp_le [OF pos],
      of "[0..<surface_bins T lens]" b 0 False cur retry b'] Suc.prems(1)
  have en: "length (aScores b') = T"
    "retry \<longrightarrow> energy w (aScores b') \<le> energy w (aScores b) - M\<^sup>2 * \<omega>"
    by (simp_all add: purify_pass_def)
  show ?case
  proof (cases "(\<forall>p. prev = Some p \<longrightarrow> cur < p) \<and> retry")
    case False
    then show ?thesis
      unfolding purify_loop_after_pass [OF pass] by auto
  next
    case True
    with en(2) Suc.prems(2) have "energy w (aScores b') \<le> real N * (M\<^sup>2 * \<omega>)"
      by (simp add: algebra_simps)
    from Suc.IH [OF en(1) this, of "Some cur" "Suc n"]
    obtain e where "purify_loop T D lens w M (surface_bins T lens) (Some cur) (Suc n) b' = Some (Inr e)"
      "exit_passes e \<le> Suc n + N + 1"
      by blast
    with True show ?thesis
      unfolding purify_loop_after_pass [OF pass] by auto
  qed
qed


theorem returns_when_impurityMax_positive:
  assumes v: "valid_shape cTensorBins cDimensions aDimensionLengths"
    and w: "length aWeights = cTensorBins"
    and s: "length (aScores b) = cTensorBins"
    and nn: "\<forall>x\<in>set aWeights. 0 \<le> x"
    and W: "sum_list aWeights \<noteq> 0"
    and tol: "0 < tolerance"
    and A: "(\<Sum>i\<leftarrow>[0..<cTensorBins]. \<bar>aScores b ! i * aWeights ! i\<bar>) \<noteq> 0"
  shows "\<exists>e. PurifyInternal_run cTensorBins tolerance cDimensions aDimensionLengths aWeights b
           = Some (Inr e)"
proof -
  let ?T = cTensorBins and ?D = cDimensions and ?lens = aDimensionLengths and ?w = aWeights
  let ?S = "surface_bins ?T ?lens"
  let ?A = "\<Sum>i\<leftarrow>[0..<?T]. \<bar>aScores b ! i * ?w ! i\<bar>"
  let ?M = "?A * tolerance / sum_list ?w"
  define b1 where "b1 = (extract_intercept ?T (\<Sum>i\<leftarrow>[0..<?T]. aScores b ! i * ?w ! i) (sum_list ?w) b)
                  \<lparr>aImpurities := memset_zero
                     (aImpurities (extract_intercept ?T (\<Sum>i\<leftarrow>[0..<?T]. aScores b ! i * ?w ! i)
                         (sum_list ?w) b)) ?S\<rparr>"
  have "0 \<le> sum_list ?w" using nn by (simp add: sum_list_nonneg)
  with W have Wpos: "0 < sum_list ?w" by simp
  have "0 \<le> ?A" by (intro sum_list_nonneg) auto
  with A have "0 < ?A" by simp
  with Wpos tol have M: "0 < ?M" by simp
  have su: "purify_setup ?T tolerance ?D ?lens ?w b = Inr (Some (?M, ?S, b1))"
    unfolding purify_setup_valid [OF v w W] b1_def ..
  have len1: "length (aScores b1) = ?T"
    unfolding b1_def extract_intercept_eq [OF s] using s by simp
  from least_positive_weight [OF nn] obtain \<omega> where
    \<omega>: "0 < \<omega>" "\<forall>x\<in>set ?w. x = 0 \<or> \<omega> \<le> x" by blast
  have "0 < ?M\<^sup>2" using M by (intro zero_less_power)
  then have "0 < ?M\<^sup>2 * \<omega>" using \<omega>(1) by (intro mult_pos_pos)
  obtain N where "energy ?w (aScores b1) / (?M\<^sup>2 * \<omega>) \<le> real N"
    using real_arch_simple by blast
  with \<open>0 < ?M\<^sup>2 * \<omega>\<close> have "energy ?w (aScores b1) \<le> real N * (?M\<^sup>2 * \<omega>)"
    by (simp add: pos_divide_le_eq)
  from purify_loop_returns [OF v w nn M \<omega>(2,1) len1 this, of None 0]
  obtain e where "purify_loop ?T ?D ?lens ?w ?M ?S None 0 b1 = Some (Inr e)" by blast
  then show ?thesis by (simp add: PurifyInternal_run_def su)
qed

text \<open>
  With \<open>impurityMax = 0\<close>, that is with tolerance 0, the rule does not bound the number of
  passes over the reals. For extents \<open>[2, 2]\<close>, weights \<open>[1, 1, 1, 3]\<close>, scores
  \<open>[6, 9, -6, -3]\<close> and tolerance 0, a pass divides every score by 16 and its total by 16
  as well: every pass improves on the one before, some slice always exceeds \<open>impurityMax\<close>,
  and the run never returns. In double precision the same run ends only once the scores
  underflow. That \<open>PurifyInternal\<close> returns on every valid input with tolerance 0 is
  therefore a fact of floating-point arithmetic, which the reals of this embedding do not
  have.
\<close>

lemma scaled_pass:
  assumes "0 < c"
  shows "purify_pass 4 2 [2, 2] [1, 1, 1, 3] 0 4
     \<lparr>aScores = [6 * c, 9 * c, - (6 * c), - (3 * c)], aImpurities = [i0, i1, i2, i3],
      pInterceptOut = None\<rparr> =
   Inr (225 / 16 * c, True,
     \<lparr>aScores = [6 * (c / 16), 9 * (c / 16), - (6 * (c / 16)), - (3 * (c / 16))],
      aImpurities = [i0 + 15 / 2 * c, i1 - 15 / 4 * c, i2 - 15 / 8 * c, i3 + 15 / 16 * c],
      pInterceptOut = None\<rparr>)"
  using assms
  by (simp add: purify_pass_def purify_surface_bin_def decode_surface_bin_def
      slice_indexes_def slice_impurity_def upt_conv_Cons Let_def add_at_def abs_mult)

lemma scaled_loop_never_returns:
  assumes run: "purify_loop 4 2 [2, 2] [1, 1, 1, 3] 0 4 prev n
      \<lparr>aScores = [6 * c, 9 * c, - (6 * c), - (3 * c)], aImpurities = [i0, i1, i2, i3],
       pInterceptOut = None\<rparr> = Some y"
    and c: "0 < c" and prev: "\<And>p. prev = Some p \<Longrightarrow> 225 / 16 * c < p"
  shows False
proof -
  define P where "P = (\<lambda>(T::nat) (D::nat) (lens::nat list) (w::real list) (M::real) (S::nat)
        (prev::real option) (n::nat) (b::buffers) (y::fault + loop_exit).
      \<forall>c i0 i1 i2 i3. T = 4 \<longrightarrow> D = 2 \<longrightarrow> lens = [2, 2] \<longrightarrow> w = [1, 1, 1, 3] \<longrightarrow> M = 0
        \<longrightarrow> S = 4
        \<longrightarrow> b = \<lparr>aScores = [6 * c, 9 * c, - (6 * c), - (3 * c)], aImpurities = [i0, i1, i2, i3],
                pInterceptOut = None\<rparr>
        \<longrightarrow> 0 < c \<longrightarrow> (\<forall>p. prev = Some p \<longrightarrow> 225 / 16 * c < p) \<longrightarrow> False)"
  have "P 4 2 [2, 2] [1, 1, 1, 3] 0 4 prev n
      \<lparr>aScores = [6 * c, 9 * c, - (6 * c), - (3 * c)], aImpurities = [i0, i1, i2, i3],
       pInterceptOut = None\<rparr> y"
  proof (rule purify_loop.raw_induct [where P = P, OF _ run])
    fix loop T D lens w M S prev n b y
    assume IH: "\<And>T D lens w M S prev n b y.
        loop T D lens w M S prev n b = Some y \<Longrightarrow> P T D lens w M S prev n b y"
      and body: "(case purify_pass T D lens w M S b of
          Inl f \<Rightarrow> Some (Inl f)
        | Inr (impurityCur, bRetry, b') \<Rightarrow>
            if (case prev of None \<Rightarrow> False | Some p \<Rightarrow> p \<le> impurityCur)
            then Some (Inr \<lparr>exit_buffers = b', exit_passes = Suc n, exit_by_guard = True\<rparr>)
            else if bRetry then loop T D lens w M S (Some impurityCur) (Suc n) b'
            else Some (Inr \<lparr>exit_buffers = b', exit_passes = Suc n, exit_by_guard = False\<rparr>))
         = Some y"
    show "P T D lens w M S prev n b y"
      unfolding P_def
    proof (intro allI impI)
      fix c i0 i1 i2 i3
      assume a: "T = 4" "D = 2" "lens = [2, 2]" "w = [1, 1, 1, 3]" "M = 0" "S = 4"
        "b = \<lparr>aScores = [6 * c, 9 * c, - (6 * c), - (3 * c)], aImpurities = [i0, i1, i2, i3],
                pInterceptOut = None\<rparr>"
        and c: "0 < c" and p: "\<forall>p. prev = Some p \<longrightarrow> 225 / 16 * c < p"
      from p have prev: "\<not> (case prev of None \<Rightarrow> False | Some p \<Rightarrow> p \<le> 225 / 16 * c)"
        by (auto split: option.splits)
      from body have "loop 4 2 [2, 2] [1, 1, 1, 3] 0 4 (Some (225 / 16 * c)) (Suc n)
          \<lparr>aScores = [6 * (c / 16), 9 * (c / 16), - (6 * (c / 16)), - (3 * (c / 16))],
           aImpurities = [i0 + 15 / 2 * c, i1 - 15 / 4 * c, i2 - 15 / 8 * c, i3 + 15 / 16 * c],
           pInterceptOut = None\<rparr> = Some y"
        unfolding a using prev
        by (simp only: scaled_pass [OF c] sum.case prod.case if_False if_True)
      from IH [OF this, unfolded P_def, rule_format,
          of "c / 16" "i0 + 15 / 2 * c" "i1 - 15 / 4 * c" "i2 - 15 / 8 * c" "i3 + 15 / 16 * c"]
        c
      show False by simp
    qed
  qed
  from this [unfolded P_def, rule_format, of c i0 i1 i2 i3] c prev show False by simp
qed

lemma exact_arithmetic_run_never_returns:
  "PurifyInternal_run 4 0 2 [2, 2] [1, 1, 1, 3]
     \<lparr>aScores = [6, 9, - 6, - 3], aImpurities = [0, 0, 0, 0], pInterceptOut = None\<rparr> = None"
proof -
  have r4: "replicate 4 (0::real) = [0, 0, 0, 0]" by (simp add: numeral_eq_Suc)
  have su: "purify_setup 4 0 2 [2, 2] [1, 1, 1, 3]
     \<lparr>aScores = [6, 9, - 6, - 3], aImpurities = [0, 0, 0, 0], pInterceptOut = None\<rparr> =
     Inr (Some (0, 4,
       \<lparr>aScores = [6 * 1, 9 * 1, - (6 * 1), - (3 * 1)], aImpurities = [0, 0, 0, 0],
        pInterceptOut = None\<rparr>))"
    by (simp add: purify_setup_def totals_def extract_intercept_def memset_zero_def
      upt_conv_Cons Let_def r4)
  show ?thesis
  proof (cases "purify_loop 4 2 [2, 2] [1, 1, 1, 3] 0 4 None 0
       \<lparr>aScores = [6 * 1, 9 * 1, - (6 * 1), - (3 * 1)], aImpurities = [0, 0, 0, 0],
        pInterceptOut = None\<rparr>")
    case None
    then show ?thesis
      unfolding PurifyInternal_run_def su by (simp only: sum.case option.case prod.case)
  next
    case (Some y)
    from scaled_loop_never_returns [OF this] show ?thesis by simp
  qed
qed

end
